theory Spec2Isabelle
  imports Main "HOL-Library.Log_Nat"
begin

section \<open>Keywords of a trend\<close>

text \<open>
  A keyword of a trend document is an object \<open>{word, occurences}\<close> (the spelling is the
  source's). The counts are integers far below \<open>2^53\<close>, where JavaScript's Number
  arithmetic on integers is exact, so they are modelled as \<open>int\<close>.
\<close>

record keyword =
  word :: string
  occurences :: int

subsection \<open>The object used as a set of seen words\<close>

text \<open>
  \<open>updateExistingTrend\<close> remembers the words it has kept in \<open>let keywordsExisting = {}\<close>,
  an ordinary object literal, and tests \<open>keywordsExisting[keyword.word]\<close> for truthiness.
  A property read on an ordinary object looks at the object's own properties first and
  then at its prototype, \<open>Object.prototype\<close>. The names below are the properties of
  \<open>Object.prototype\<close>; each of them reads as a function (or, for \<open>__proto__\<close>, as
  \<open>Object.prototype\<close> itself), all of them truthy values.
\<close>

definition objectPrototypeKeys :: "string list" where
  "objectPrototypeKeys =
     [''constructor'', ''__defineGetter__'', ''__defineSetter__'', ''hasOwnProperty'',
      ''__lookupGetter__'', ''__lookupSetter__'', ''isPrototypeOf'',
      ''propertyIsEnumerable'', ''toString'', ''valueOf'', ''__proto__'',
      ''toLocaleString'']"

text \<open>
  \<open>truthyProp own w\<close> is the truthiness of \<open>keywordsExisting[w]\<close> when \<open>own\<close> lists the
  words that were assigned \<open>true\<close> so far.
\<close>

definition truthyProp :: "string list \<Rightarrow> string \<Rightarrow> bool" where
  "truthyProp own w = (w \<in> set own \<or> w \<in> set objectPrototypeKeys)"

text \<open>
  The callback of \<open>.filter\<close> (lines 122 to 129), run over the array from left to right
  with the object threaded through as state:
  \<^verbatim>\<open>
    if (keywordsExisting[keyword.word]) { return false }
    else { keywordsExisting[keyword.word] = true; return true }
  \<close>
\<close>

fun filterKeywords :: "string list \<Rightarrow> keyword list \<Rightarrow> keyword list" where
  "filterKeywords own [] = []"
| "filterKeywords own (k # ks) =
     (if truthyProp own (word k) then filterKeywords own ks
      else k # filterKeywords (word k # own) ks)"

subsection \<open>Array.prototype.sort with a comparator\<close>

text \<open>
  \<open>Array.prototype.sort(comparefn)\<close> is a stable sort (ECMAScript 2019, section
  22.1.3.27): \<open>a\<close> stays before \<open>b\<close> unless \<open>comparefn(a, b) > 0\<close>. It is modelled as
  the insertion sort that inserts from the right, which is stable.
\<close>

fun insertBy :: "('a \<Rightarrow> 'a \<Rightarrow> int) \<Rightarrow> 'a \<Rightarrow> 'a list \<Rightarrow> 'a list" where
  "insertBy cmp x [] = [x]"
| "insertBy cmp x (y # ys) =
     (if cmp x y \<le> 0 then x # y # ys else y # insertBy cmp x ys)"

definition sortBy :: "('a \<Rightarrow> 'a \<Rightarrow> int) \<Rightarrow> 'a list \<Rightarrow> 'a list" where
  "sortBy cmp xs = foldr (insertBy cmp) xs []"

text \<open>The comparator of line 131: \<open>(a, b) => b.occurences - a.occurences\<close>.\<close>

definition byOccurencesDesc :: "keyword \<Rightarrow> keyword \<Rightarrow> int" where
  "byOccurencesDesc a b = occurences b - occurences a"

subsection \<open>Array.prototype.slice\<close>

text \<open>
  \<open>xs.slice(start, end)\<close> for integer arguments: a negative argument counts from the
  end of the array, and both are clamped to \<open>0 .. length\<close>.
\<close>

definition slice :: "'a list \<Rightarrow> int \<Rightarrow> int \<Rightarrow> 'a list" where
  "slice xs start fin =
     (let len = int (length xs);
          k = (if start < 0 then max (len + start) 0 else min start len);
          final = (if fin < 0 then max (len + fin) 0 else min fin len);
          count = max (final - k) 0
      in take (nat count) (drop (nat k) xs))"

subsection \<open>The keyword merge of updateExistingTrend\<close>

text \<open>
  Lines 120 to 129: the existing keywords followed by the current ones, filtered by the
  callback above, starting from the empty object.
\<close>

definition dedupKeywords :: "keyword list \<Rightarrow> keyword list \<Rightarrow> keyword list" where
  "dedupKeywords existing current = filterKeywords [] (existing @ current)"

text \<open>
  Lines 120 to 133: filter, sort in place, slice. \<open>maxKeywordsPerTrend\<close> is
  \<open>config.maxKeywordsPerTrend\<close>; the configuration module is not part of the sources, so
  the value is an argument.
\<close>

definition newKeywords :: "int \<Rightarrow> keyword list \<Rightarrow> keyword list \<Rightarrow> keyword list" where
  "newKeywords maxKeywordsPerTrend existing current =
     slice (sortBy byOccurencesDesc (dedupKeywords existing current)) 0 maxKeywordsPerTrend"

text \<open>
  The deduplication as the specification words it: scan in order, keep the first
  occurrence of each distinct word, discard later entries with the same word.
\<close>

fun dedupByWord :: "keyword list \<Rightarrow> keyword list" where
  "dedupByWord [] = []"
| "dedupByWord (k # ks) = k # dedupByWord (filter (\<lambda>x. word x \<noteq> word k) ks)"

text \<open>
  The position of the first entry of a list that carries a given word (the length of
  the list when there is none): where a word is first seen in the concatenated input.
\<close>

fun firstIndex :: "string \<Rightarrow> keyword list \<Rightarrow> nat" where
  "firstIndex w [] = 0"
| "firstIndex w (k # ks) = (if word k = w then 0 else Suc (firstIndex w ks))"

section \<open>JavaScript numbers\<close>

text \<open>
  A sentiment score is a JavaScript Number, an IEEE 754 double. A finite double is
  modelled by the rational it denotes, and every arithmetic operation computes the exact
  rational result and rounds it to the nearest double, ties to even (53 bits of
  precision, exponents from \<open>-1022\<close> to \<open>1023\<close>, gradual underflow, overflow to an
  infinity). The two zeros are identified: \<open>===\<close> does not tell them apart, and the sign
  of a zero shows only in a division by zero, where the model takes the zero as \<open>+0\<close>.
  The number of analysed tweets is a Number as well: it is added, compared with \<open>0\<close>,
  multiplied with a score and stored as one.
\<close>

datatype jsnum = Finite rat | PosInf | NegInf | NaN

definition pow2 :: "int \<Rightarrow> rat" where
  "pow2 k = (if 0 \<le> k then 2 ^ nat k else 1 / 2 ^ nat (- k))"

definition roundHalfEven :: "rat \<Rightarrow> int" where
  "roundHalfEven q =
     (let f = \<lfloor>q\<rfloor>; d = q - of_int f
      in if d < 1 / 2 then f else if 1 / 2 < d then f + 1 else if even f then f else f + 1)"

text \<open>For \<open>q > 0\<close>, the exponent \<open>e\<close> with \<open>2^e \<le> q < 2^(e+1)\<close>.\<close>

definition floorLog2 :: "rat \<Rightarrow> int" where
  "floorLog2 q =
     (let (a, b) = quotient_of q; e = bitlen a - bitlen b
      in if pow2 e \<le> q then e else e - 1)"

definition roundToDouble :: "rat \<Rightarrow> jsnum" where
  "roundToDouble q =
     (if q = 0 then Finite 0
      else let e = max (floorLog2 \<bar>q\<bar>) (- 1022);
               ulp = pow2 (e - 52);
               r = of_int (roundHalfEven (q / ulp)) * ulp
           in if pow2 1024 \<le> \<bar>r\<bar> then (if 0 < q then PosInf else NegInf) else Finite r)"

text \<open>The values of the model that are doubles: the finite ones that rounding leaves alone.\<close>

definition isDouble :: "jsnum \<Rightarrow> bool" where
  "isDouble x = (case x of Finite q \<Rightarrow> roundToDouble q = Finite q | _ \<Rightarrow> True)"

text \<open>An integer as a Number: the double nearest to it.\<close>

definition js_of_int :: "int \<Rightarrow> jsnum" where
  "js_of_int n = roundToDouble (of_int n)"

text \<open>The operators \<open>+\<close>, \<open>*\<close> and \<open>/\<close> on Numbers.\<close>

fun js_add :: "jsnum \<Rightarrow> jsnum \<Rightarrow> jsnum" where
  "js_add NaN y = NaN"
| "js_add x NaN = NaN"
| "js_add PosInf NegInf = NaN"
| "js_add NegInf PosInf = NaN"
| "js_add PosInf y = PosInf"
| "js_add x PosInf = PosInf"
| "js_add NegInf y = NegInf"
| "js_add x NegInf = NegInf"
| "js_add (Finite a) (Finite b) = roundToDouble (a + b)"

definition negate :: "jsnum \<Rightarrow> jsnum" where
  "negate x = (case x of Finite q \<Rightarrow> Finite (- q) | PosInf \<Rightarrow> NegInf | NegInf \<Rightarrow> PosInf | NaN \<Rightarrow> NaN)"

fun js_mul :: "jsnum \<Rightarrow> jsnum \<Rightarrow> jsnum" where
  "js_mul NaN y = NaN"
| "js_mul x NaN = NaN"
| "js_mul (Finite a) (Finite b) = roundToDouble (a * b)"
| "js_mul (Finite a) y = (if a = 0 then NaN else if 0 < a then y else negate y)"
| "js_mul x (Finite b) = (if b = 0 then NaN else if 0 < b then x else negate x)"
| "js_mul x y = (if x = y then PosInf else NegInf)"

fun js_div :: "jsnum \<Rightarrow> jsnum \<Rightarrow> jsnum" where
  "js_div NaN y = NaN"
| "js_div x NaN = NaN"
| "js_div (Finite a) (Finite b) =
     (if b = 0 then (if a = 0 then NaN else if 0 < a then PosInf else NegInf)
      else roundToDouble (a / b))"
| "js_div (Finite a) y = Finite 0"
| "js_div x (Finite b) = (if 0 \<le> b then x else negate x)"
| "js_div x y = NaN"

text \<open>The comparison \<open>x > y\<close> of Numbers; it is false when either side is \<open>NaN\<close>.\<close>

fun js_gt :: "jsnum \<Rightarrow> jsnum \<Rightarrow> bool" where
  "js_gt NaN y = False"
| "js_gt x NaN = False"
| "js_gt (Finite a) (Finite b) = (b < a)"
| "js_gt PosInf y = (y \<noteq> PosInf)"
| "js_gt x PosInf = False"
| "js_gt NegInf y = False"
| "js_gt x NegInf = True"

section \<open>Trend documents and the data of one update\<close>

text \<open>
  Tweets and news articles are opaque to this module: they are passed through as they
  come. Each is represented by its text.
\<close>

type_synonym tweet = string
type_synonym article = string

text \<open>
  What the stream reports for one trend: \<open>{sentiment, tweets_analyzed, keywords}\<close>. The
  last two fields carry the prefix \<open>stream_\<close> here, to keep them apart from the fields of
  a trend document.
\<close>

record streamEntry =
  sentiment :: jsnum
  stream_tweets_analyzed :: jsnum
  stream_keywords :: "keyword list"

text \<open>
  \<open>trendData\<close> is what the trends module reports for a trend; a trend document (and
  \<open>fullTrendData\<close>, which \<open>_.extend\<close> builds on \<open>trendData\<close>) has the further fields. The
  field \<open>keywords\<close> is written \<open>keywords'\<close>.
\<close>

record trendData =
  name :: string
  rank :: int

record trend = trendData +
  articles :: "article list"
  tweets :: "tweet list"
  sentiment_score :: jsnum
  sentiment_description :: string
  tweets_analyzed :: jsnum
  keywords' :: "keyword list"

text \<open>
  A trend document with a given score, a given integer as its number of analysed tweets,
  given keywords, and fixed other fields: the documents of the worked examples.
\<close>

definition trendWith :: "jsnum \<Rightarrow> int \<Rightarrow> keyword list \<Rightarrow> trend" where
  "trendWith score analyzed kws =
     \<lparr> name = ''t'', rank = 1, articles = [], tweets = [],
       sentiment_score = score, sentiment_description = ''Neutral'',
       tweets_analyzed = js_of_int analyzed, keywords' = kws \<rparr>"

section \<open>The weighted sentiment of updateExistingTrend\<close>

text \<open>Line 111.\<close>

definition newTweetsAnalyzed :: "trend \<Rightarrow> trend \<Rightarrow> jsnum" where
  "newTweetsAnalyzed existingTrendData currentTrendData =
     js_add (tweets_analyzed existingTrendData) (tweets_analyzed currentTrendData)"

text \<open>Lines 114 to 117.\<close>

definition newSentimentScore :: "trend \<Rightarrow> trend \<Rightarrow> jsnum" where
  "newSentimentScore existingTrendData currentTrendData =
     (if js_gt (newTweetsAnalyzed existingTrendData currentTrendData) (Finite 0)
      then js_div
             (js_add
                (js_mul (sentiment_score currentTrendData) (tweets_analyzed currentTrendData))
                (js_mul (sentiment_score existingTrendData) (tweets_analyzed existingTrendData)))
             (newTweetsAnalyzed existingTrendData currentTrendData)
      else Finite 0)"

section \<open>The collection of trend documents\<close>

datatype error = PersistenceError

text \<open>How a promise ends: resolved, rejected, or never settled.\<close>

datatype outcome = Resolved | Rejected error | Pending

text \<open>
  The record store is the mongoose model \<open>Trend\<close> of \<open>../models/trend\<close>, which is not among
  the sources. The collection is modelled as the list of its documents. Every call takes
  \<open>fault\<close>, the failure the store answers this call with, if any; a call that fails leaves
  the collection as it was.
\<close>

text \<open>
  Modelled from the spec: \<open>Trend.remove({name: {$nin: names}})\<close>, the store's
  \<open>deleteMany(filter: name not in set)\<close>. It deletes every document whose name is not in
  \<open>names\<close>.
\<close>

definition Trend_remove_nin :: "error option \<Rightarrow> string list \<Rightarrow> trend list \<Rightarrow> error + trend list" where
  "Trend_remove_nin fault names docs =
     (case fault of Some e \<Rightarrow> Inl e | None \<Rightarrow> Inr (filter (\<lambda>d. name d \<in> set names) docs))"

text \<open>
  Modelled from the spec: \<open>Trend.findOne({name: n})\<close>, the store's
  \<open>findOne(name) -> Record | null\<close>. It gives the first document named \<open>n\<close>, or null.
\<close>

definition Trend_findOne :: "error option \<Rightarrow> string \<Rightarrow> trend list \<Rightarrow> error + trend option" where
  "Trend_findOne fault n docs =
     (case fault of Some e \<Rightarrow> Inl e | None \<Rightarrow> Inr (find (\<lambda>d. name d = n) docs))"

text \<open>
  Modelled from the spec: \<open>Trend.findOneAndUpdate({name: n}, {$set: fields})\<close>, the store's
  \<open>findOneAndUpdate(name, fields)\<close>. It sets the fields in the first document named \<open>n\<close>
  and does nothing when there is none. \<open>upd\<close> is the effect of the \<open>$set\<close> on a document.
\<close>

fun updateFirst :: "string \<Rightarrow> (trend \<Rightarrow> trend) \<Rightarrow> trend list \<Rightarrow> trend list" where
  "updateFirst n f [] = []"
| "updateFirst n f (d # ds) = (if name d = n then f d # ds else d # updateFirst n f ds)"

definition Trend_findOneAndUpdate ::
  "error option \<Rightarrow> string \<Rightarrow> (trend \<Rightarrow> trend) \<Rightarrow> trend list \<Rightarrow> error + trend list" where
  "Trend_findOneAndUpdate fault n upd docs =
     (case fault of Some e \<Rightarrow> Inl e | None \<Rightarrow> Inr (updateFirst n upd docs))"

text \<open>
  Modelled from the spec: \<open>new Trend(data).save()\<close>, the store's \<open>save(record)\<close>. It adds
  the document to the collection.
\<close>

definition Trend_save :: "error option \<Rightarrow> trend \<Rightarrow> trend list \<Rightarrow> error + trend list" where
  "Trend_save fault d docs = (case fault of Some e \<Rightarrow> Inl e | None \<Rightarrow> Inr (docs @ [d]))"

section \<open>The functions of mainUtils\<close>

text \<open>
  \<open>removeOldTrends\<close> (lines 18 to 24): the promise resolves when the store has removed
  the documents, and rejects with the store's error.
\<close>

definition removeOldTrends :: "error option \<Rightarrow> string list \<Rightarrow> trend list \<Rightarrow> outcome \<times> trend list" where
  "removeOldTrends fault currTrends docs =
     (case Trend_remove_nin fault currTrends docs of
        Inl e \<Rightarrow> (Rejected e, docs)
      | Inr docs' \<Rightarrow> (Resolved, docs'))"

text \<open>
  Lines 79 to 86 of \<open>processTrend\<close>. \<open>getSentimentDescription\<close> is the function of
  \<open>./sentiment-utils\<close>, which is not among the sources: it is an argument.
\<close>

definition fullTrendData ::
  "(jsnum \<Rightarrow> string) \<Rightarrow> trendData \<Rightarrow> article list \<Rightarrow> tweet list \<Rightarrow> streamEntry option \<Rightarrow> trend" where
  "fullTrendData getSentimentDescription td newsArticles tws streamData =
     \<lparr> name = name td, rank = rank td,
       articles = newsArticles,
       tweets = tws,
       sentiment_score = (case streamData of Some s \<Rightarrow> sentiment s | None \<Rightarrow> Finite 0),
       sentiment_description =
         (case streamData of Some s \<Rightarrow> getSentimentDescription (sentiment s) | None \<Rightarrow> ''No Data''),
       tweets_analyzed = (case streamData of Some s \<Rightarrow> stream_tweets_analyzed s | None \<Rightarrow> Finite 0),
       keywords' = (case streamData of Some s \<Rightarrow> stream_keywords s | None \<Rightarrow> []) \<rparr>"

text \<open>The \<open>$set\<close> of \<open>updateExistingTrend\<close> (lines 137 to 145), applied to a document.\<close>

definition setFields ::
  "(jsnum \<Rightarrow> string) \<Rightarrow> int \<Rightarrow> trend \<Rightarrow> trend \<Rightarrow> trend \<Rightarrow> trend" where
  "setFields getSentimentDescription maxKeywordsPerTrend existingTrendData currentTrendData d =
     d \<lparr> sentiment_score := newSentimentScore existingTrendData currentTrendData,
         sentiment_description :=
           getSentimentDescription (newSentimentScore existingTrendData currentTrendData),
         tweets_analyzed := newTweetsAnalyzed existingTrendData currentTrendData,
         rank := rank currentTrendData,
         keywords' :=
           newKeywords maxKeywordsPerTrend (keywords' existingTrendData) (keywords' currentTrendData),
         tweets := tweets currentTrendData,
         articles := articles currentTrendData \<rparr>"

text \<open>\<open>updateExistingTrend\<close> (lines 109 to 150).\<close>

definition updateExistingTrend ::
  "(jsnum \<Rightarrow> string) \<Rightarrow> int \<Rightarrow> error option \<Rightarrow> trend \<Rightarrow> trend \<Rightarrow> trend list \<Rightarrow> outcome \<times> trend list" where
  "updateExistingTrend getSentimentDescription maxKeywordsPerTrend fault existingTrendData currentTrendData docs =
     (case Trend_findOneAndUpdate fault (name existingTrendData)
             (setFields getSentimentDescription maxKeywordsPerTrend existingTrendData currentTrendData)
             docs of
        Inl e \<Rightarrow> (Rejected e, docs)
      | Inr docs' \<Rightarrow> (Resolved, docs'))"

text \<open>\<open>createNewTrend\<close> (lines 158 to 164).\<close>

definition createNewTrend :: "error option \<Rightarrow> trend \<Rightarrow> trend list \<Rightarrow> outcome \<times> trend list" where
  "createNewTrend fault td docs =
     (case Trend_save fault td docs of
        Inl e \<Rightarrow> (Rejected e, docs)
      | Inr docs' \<Rightarrow> (Resolved, docs'))"

text \<open>
  \<open>processTrend\<close> (lines 77 to 99). \<open>findFault\<close> and \<open>writeFault\<close> are the store's answers
  to the lookup and to the write. A failed lookup rejects the promise (\<open>.catch(reject)\<close>).
  The promise of the write is only given \<open>.then(resolve)\<close> and is not returned to the
  chain that has the \<open>catch\<close>: when the write fails, the promise of \<open>processTrend\<close> is
  never settled.
\<close>

definition processTrend ::
  "(jsnum \<Rightarrow> string) \<Rightarrow> int \<Rightarrow> error option \<Rightarrow> error option \<Rightarrow>
   trendData \<Rightarrow> article list \<Rightarrow> tweet list \<Rightarrow> streamEntry option \<Rightarrow> trend list \<Rightarrow> outcome \<times> trend list" where
  "processTrend getSentimentDescription maxKeywordsPerTrend findFault writeFault
       td newsArticles tws streamData docs =
     (let full = fullTrendData getSentimentDescription td newsArticles tws streamData
      in case Trend_findOne findFault (name td) docs of
           Inl e \<Rightarrow> (Rejected e, docs)
         | Inr found \<Rightarrow>
             (case (case found of
                      Some doc \<Rightarrow>
                        updateExistingTrend getSentimentDescription maxKeywordsPerTrend writeFault doc full docs
                    | None \<Rightarrow> createNewTrend writeFault full docs) of
                (Resolved, docs') \<Rightarrow> (Resolved, docs')
              | (other, docs') \<Rightarrow> (Pending, docs')))"

section \<open>update as a transition system\<close>

text \<open>
  \<open>update\<close> (lines 34 to 63) starts the removal of the old trends, whose promise it
  drops, and one chain of callbacks per trend: \<open>news.getNews\<close> calls back with the
  articles, then \<open>tweetSearch.getTweetSample\<close> resolves with the tweets, then
  \<open>processTrend\<close> runs, and when it resolves the counter is incremented and compared with
  \<open>trends.length\<close>. The state holds what is still outstanding. \<open>streamData\<close> is the value
  of \<open>tweetStream.getData()\<close>.
\<close>

record updateState =
  total :: nat
  removal :: "string list option"
  awaitingNews :: "trendData list"
  awaitingTweets :: "(trendData \<times> article list) list"
  trendsProcessed :: nat
  promise :: outcome
  stored :: "trend list"

definition update :: "trendData list \<Rightarrow> trend list \<Rightarrow> updateState" where
  "update trends collection =
     \<lparr> total = length trends,
       removal = Some (map name trends),
       awaitingNews = trends,
       awaitingTweets = [],
       trendsProcessed = 0,
       promise = Pending,
       stored = collection \<rparr>"

text \<open>Lines 51 to 58: the callback given to the promise of \<open>processTrend\<close>.\<close>

definition processed :: "outcome \<Rightarrow> updateState \<Rightarrow> updateState" where
  "processed out s =
     (case out of
        Resolved \<Rightarrow>
          (let n = trendsProcessed s + 1
           in s \<lparr> trendsProcessed := n,
                 promise := (if n = total s then Resolved else promise s) \<rparr>)
      | other \<Rightarrow> s)"

text \<open>
  One event of the environment. The two store calls of one \<open>processTrend\<close> are taken as
  one step. A news callback that never comes, and a tweet search that rejects (its
  promise has no handler for that), leave their chain where it is or drop it.
\<close>

inductive step ::
  "(jsnum \<Rightarrow> string) \<Rightarrow> int \<Rightarrow> (string \<Rightarrow> streamEntry option) \<Rightarrow> updateState \<Rightarrow> updateState \<Rightarrow> bool"
  for getSentimentDescription :: "jsnum \<Rightarrow> string"
    and maxKeywordsPerTrend :: int
    and streamData :: "string \<Rightarrow> streamEntry option"
where
  removed:
    "removal s = Some names \<Longrightarrow> removeOldTrends fault names (stored s) = (out, docs') \<Longrightarrow>
     step getSentimentDescription maxKeywordsPerTrend streamData s
       (s \<lparr> removal := None, stored := docs' \<rparr>)"
| gotNews:
    "awaitingNews s = before @ td # after \<Longrightarrow>
     step getSentimentDescription maxKeywordsPerTrend streamData s
       (s \<lparr> awaitingNews := before @ after,
            awaitingTweets := awaitingTweets s @ [(td, newsArticles)] \<rparr>)"
| tweetsRejected:
    "awaitingTweets s = before @ (td, newsArticles) # after \<Longrightarrow>
     step getSentimentDescription maxKeywordsPerTrend streamData s
       (s \<lparr> awaitingTweets := before @ after \<rparr>)"
| gotTweets:
    "awaitingTweets s = before @ (td, newsArticles) # after \<Longrightarrow>
     processTrend getSentimentDescription maxKeywordsPerTrend findFault writeFault
       td newsArticles tws (streamData (name td)) (stored s) = (out, docs') \<Longrightarrow>
     step getSentimentDescription maxKeywordsPerTrend streamData s
       (processed out (s \<lparr> awaitingTweets := before @ after, stored := docs' \<rparr>))"

section \<open>Properties of the keyword merge\<close>

lemma slice_from_zero:
  "slice xs 0 n = take (if n < 0 then length xs - nat (- n) else nat n) xs"
proof -
  have "n < 0 \<Longrightarrow> nat (max (int (length xs) + n) 0) = length xs - nat (- n)" by arith
  moreover have "0 \<le> n \<Longrightarrow> take (nat (min n (int (length xs)))) xs = take (nat n) xs"
    by (cases "n \<le> int (length xs)") (simp_all add: min_def)
  ultimately show ?thesis by (simp add: slice_def Let_def)
qed

lemma insertBy_insort:
  "insertBy byOccurencesDesc x ys = insort_key (\<lambda>k. - occurences k) x ys"
  by (induction ys) (simp_all add: byOccurencesDesc_def)

lemma sortBy_sort_key:
  "sortBy byOccurencesDesc xs = sort_key (\<lambda>k. - occurences k) xs"
  by (induction xs) (simp_all add: sortBy_def insertBy_insort)

lemma filterKeywords_not_truthy:
  "z \<in> set (filterKeywords own xs) \<Longrightarrow> \<not> truthyProp own (word z)"
proof (induction xs arbitrary: own)
  case Nil
  then show ?case by simp
next
  case (Cons k ks)
  show ?case
  proof (cases "truthyProp own (word k)")
    case True
    with Cons show ?thesis by simp
  next
    case False
    with Cons.prems have "z = k \<or> z \<in> set (filterKeywords (word k # own) ks)" by simp
    then show ?thesis
    proof
      assume "z = k" with False show ?thesis by simp
    next
      assume "z \<in> set (filterKeywords (word k # own) ks)"
      from Cons.IH [OF this] show ?thesis by (simp add: truthyProp_def)
    qed
  qed
qed

lemma filterKeywords_fresh:
  "z \<in> set (filterKeywords (w # own) xs) \<Longrightarrow> word z \<noteq> w"
  using filterKeywords_not_truthy [of z "w # own" xs] by (auto simp: truthyProp_def)

lemma filterKeywords_subset: "set (filterKeywords own xs) \<subseteq> set xs"
  by (induction xs arbitrary: own) auto

lemma filterKeywords_distinct: "distinct (map word (filterKeywords own xs))"
proof (induction xs arbitrary: own)
  case Nil
  then show ?case by simp
next
  case (Cons k ks)
  then show ?case by (auto dest: filterKeywords_fresh)
qed

lemma filterKeywords_first:
  "z \<in> set (filterKeywords own xs) \<Longrightarrow>
     firstIndex (word z) xs < length xs \<and> xs ! firstIndex (word z) xs = z"
proof (induction xs arbitrary: own)
  case Nil
  then show ?case by simp
next
  case (Cons k ks)
  show ?case
  proof (cases "truthyProp own (word k)")
    case True
    with Cons.prems have z: "z \<in> set (filterKeywords own ks)" by simp
    with True have "word k \<noteq> word z" using filterKeywords_not_truthy by metis
    with Cons.IH [OF z] show ?thesis by simp
  next
    case False
    with Cons.prems have "z = k \<or> z \<in> set (filterKeywords (word k # own) ks)" by simp
    then show ?thesis
    proof
      assume "z = k" then show ?thesis by simp
    next
      assume z: "z \<in> set (filterKeywords (word k # own) ks)"
      then have "word k \<noteq> word z" using filterKeywords_fresh by metis
      with Cons.IH [OF z] show ?thesis by simp
    qed
  qed
qed

lemma filterKeywords_order:
  "filterKeywords own xs = as @ x # bs @ y # cs \<Longrightarrow>
     firstIndex (word x) xs < firstIndex (word y) xs"
proof (induction xs arbitrary: own as)
  case Nil
  then show ?case by simp
next
  case (Cons k ks)
  have xin: "x \<in> set (filterKeywords own (k # ks))" and yin: "y \<in> set (filterKeywords own (k # ks))"
    using Cons.prems by simp_all
  show ?case
  proof (cases "truthyProp own (word k)")
    case True
    with Cons.prems have eq: "filterKeywords own ks = as @ x # bs @ y # cs" by simp
    from True xin yin have "word k \<noteq> word x" "word k \<noteq> word y"
      using filterKeywords_not_truthy by metis+
    with Cons.IH [OF eq] show ?thesis by simp
  next
    case False
    with Cons.prems have eq: "k # filterKeywords (word k # own) ks = as @ x # bs @ y # cs" by simp
    show ?thesis
    proof (cases as)
      case Nil
      with eq have "x = k" and "y \<in> set (filterKeywords (word k # own) ks)" by auto
      then have "word x = word k" "word y \<noteq> word k" using filterKeywords_fresh by auto
      then show ?thesis by simp
    next
      case (Cons a as')
      with eq have eq': "filterKeywords (word k # own) ks = as' @ x # bs @ y # cs" by auto
      then have "x \<in> set (filterKeywords (word k # own) ks)" "y \<in> set (filterKeywords (word k # own) ks)"
        by simp_all
      then have "word x \<noteq> word k" "word y \<noteq> word k" using filterKeywords_fresh by auto
      with Cons.IH [OF eq'] show ?thesis by simp
    qed
  qed
qed

lemma nth_split2:
  "i < j \<Longrightarrow> j < length l \<Longrightarrow> \<exists>as bs cs. l = as @ l ! i # bs @ l ! j # cs"
proof -
  assume ij: "i < j" and j: "j < length l"
  have "l = take j l @ l ! j # drop (Suc j) l" using j by (simp add: id_take_nth_drop)
  moreover have "take j l = take i (take j l) @ take j l ! i # drop (Suc i) (take j l)"
    using ij j by (intro id_take_nth_drop) simp
  moreover have "take j l ! i = l ! i" using ij by simp
  ultimately have "l = (take i (take j l) @ l ! i # drop (Suc i) (take j l)) @ l ! j # drop (Suc j) l"
    by metis
  then show ?thesis by (metis append.assoc append_Cons)
qed

lemma filter_eq_appendD:
  "filter P d = as @ zs \<Longrightarrow> \<exists>us vs. d = us @ vs \<and> filter P us = as \<and> filter P vs = zs"
proof (induction as arbitrary: d)
  case Nil
  then have "d = [] @ d \<and> filter P [] = [] \<and> filter P d = zs" by simp
  then show ?case by blast
next
  case (Cons a as)
  then have "filter P d = a # (as @ zs)" by simp
  then obtain us1 vs1 where d: "d = us1 @ a # vs1" and no: "\<forall>u\<in>set us1. \<not> P u"
    and a: "P a" and rest: "filter P vs1 = as @ zs"
    by (auto simp: filter_eq_Cons_iff)
  from Cons.IH [OF rest] obtain us vs where vs1: "vs1 = us @ vs" and "filter P us = as" "filter P vs = zs"
    by blast
  with d no a have "d = (us1 @ a # us) @ vs \<and> filter P (us1 @ a # us) = a # as \<and> filter P vs = zs"
    by simp
  then show ?case by blast
qed

lemma filter_split2:
  "filter P d = as @ x # bs @ y # cs \<Longrightarrow> \<exists>as' bs' cs'. d = as' @ x # bs' @ y # cs'"
proof -
  assume "filter P d = as @ x # bs @ y # cs"
  then obtain us vs where d: "d = us @ vs" and v: "filter P vs = x # bs @ y # cs"
    using filter_eq_appendD by blast
  from v obtain us1 vs1 where vs: "vs = us1 @ x # vs1" and v1: "filter P vs1 = bs @ y # cs"
    by (auto simp: filter_eq_Cons_iff)
  from v1 obtain us2 vs2 where vs1: "vs1 = us2 @ vs2" and v2: "filter P vs2 = y # cs"
    using filter_eq_appendD by blast
  from v2 obtain us3 vs3 where "vs2 = us3 @ y # vs3" by (auto simp: filter_eq_Cons_iff)
  with d vs vs1 have "d = (us @ us1) @ x # (us2 @ us3) @ y # vs3" by simp
  then show ?thesis by blast
qed

lemma sort_key_order:
  assumes "sort_key f d = as @ x # bs @ y # cs" and "f x = f y"
  shows "\<exists>as' bs' cs'. d = as' @ x # bs' @ y # cs'"
proof -
  have "filter (\<lambda>z. f z = f x) d = filter (\<lambda>z. f z = f x) (sort_key f d)"
    by (simp add: sort_key_stable)
  also have "\<dots> = filter (\<lambda>z. f z = f x) as @ x # filter (\<lambda>z. f z = f x) bs @ y # filter (\<lambda>z. f z = f x) cs"
    using assms by simp
  finally show ?thesis by (rule filter_split2)
qed

lemma newKeywords_take:
  "\<exists>m. newKeywords n e c = take m (sort_key (\<lambda>k. - occurences k) (dedupKeywords e c))"
  by (auto simp: newKeywords_def slice_from_zero sortBy_sort_key)

lemma newKeywords_order:
  assumes "i < j" and "j < length (newKeywords n e c)"
    and "occurences (newKeywords n e c ! i) = occurences (newKeywords n e c ! j)"
  shows "firstIndex (word (newKeywords n e c ! i)) (e @ c)
       < firstIndex (word (newKeywords n e c ! j)) (e @ c)"
proof -
  let ?r = "newKeywords n e c"
  let ?f = "\<lambda>k. - occurences k"
  obtain m where r: "?r = take m (sort_key ?f (dedupKeywords e c))"
    using newKeywords_take by blast
  obtain as bs cs where "?r = as @ ?r ! i # bs @ ?r ! j # cs"
    using nth_split2 [OF assms(1,2)] by blast
  then have "sort_key ?f (dedupKeywords e c) = as @ ?r ! i # bs @ ?r ! j # (cs @ drop m (sort_key ?f (dedupKeywords e c)))"
    using r append_take_drop_id [of m "sort_key ?f (dedupKeywords e c)"] by (metis append.assoc append_Cons)
  moreover have "?f (?r ! i) = ?f (?r ! j)" using assms(3) by simp
  ultimately obtain as' bs' cs' where "dedupKeywords e c = as' @ ?r ! i # bs' @ ?r ! j # cs'"
    using sort_key_order [of ?f] by blast
  then show ?thesis unfolding dedupKeywords_def by (rule filterKeywords_order)
qed

lemma newKeywords_sorted:
  assumes "i < j" and "j < length (newKeywords n e c)"
  shows "occurences (newKeywords n e c ! j) \<le> occurences (newKeywords n e c ! i)"
proof -
  let ?f = "\<lambda>k. - occurences k"
  obtain m where r: "newKeywords n e c = take m (sort_key ?f (dedupKeywords e c))"
    using newKeywords_take by blast
  have "sorted (map ?f (take m (sort_key ?f (dedupKeywords e c))))"
    by (simp add: take_map [symmetric] sorted_wrt_take del: take_map)
  then have "sorted (map ?f (newKeywords n e c))" using r by simp
  then have "map ?f (newKeywords n e c) ! i \<le> map ?f (newKeywords n e c) ! j"
    using assms by (simp add: sorted_iff_nth_mono del: nth_map)
  then show ?thesis using assms by simp
qed

lemma newKeywords_subset: "set (newKeywords n e c) \<subseteq> set (dedupKeywords e c)"
proof -
  obtain m where "newKeywords n e c = take m (sort_key (\<lambda>k. - occurences k) (dedupKeywords e c))"
    using newKeywords_take by blast
  then show ?thesis using set_take_subset [of m "sort_key (\<lambda>k. - occurences k) (dedupKeywords e c)"] by simp
qed

lemma newKeywords_distinct: "distinct (map word (newKeywords n e c))"
proof -
  let ?s = "sort_key (\<lambda>k. - occurences k) (dedupKeywords e c)"
  obtain m where r: "newKeywords n e c = take m ?s"
    using newKeywords_take by blast
  have "distinct (map word (dedupKeywords e c))" by (simp add: dedupKeywords_def filterKeywords_distinct)
  then have "distinct (map word ?s)" by (simp add: distinct_map)
  then have "distinct (take m (map word ?s))" by (rule distinct_take)
  then show ?thesis using r by (simp add: take_map)
qed

lemma newKeywords_length: "0 \<le> n \<Longrightarrow> int (length (newKeywords n e c)) \<le> n"
  by (simp add: newKeywords_def slice_from_zero)


lemma filterKeywords_dedupByWord:
  "filterKeywords own xs = dedupByWord (filter (\<lambda>k. \<not> truthyProp own (word k)) xs)"
proof (induction xs arbitrary: own)
  case Nil
  then show ?case by simp
next
  case (Cons k ks)
  have "\<And>v. (\<not> truthyProp (word k # own) v) = (v \<noteq> word k \<and> \<not> truthyProp own v)"
    by (auto simp: truthyProp_def)
  then have "filter (\<lambda>x. \<not> truthyProp (word k # own) (word x)) ks
           = filter (\<lambda>x. word x \<noteq> word k) (filter (\<lambda>x. \<not> truthyProp own (word x)) ks)"
    by (simp add: conj_commute)
  with Cons show ?case by simp
qed

lemma dedupKeywords_first_occurrences:
  "dedupKeywords existing current =
     dedupByWord (filter (\<lambda>k. word k \<notin> set objectPrototypeKeys) (existing @ current))"
  by (simp add: dedupKeywords_def filterKeywords_dedupByWord truthyProp_def)

text \<open>
  Claim C1: the filtered list is the concatenation of the existing and the incoming
  keywords, deduplicated by word, with the first occurrence of every distinct word
  kept. The code keeps the first occurrence of every word that is not a property name of
  \<open>Object.prototype\<close> (\<open>dedupKeywords_first_occurrences\<close>); a keyword whose word is such a
  name is dropped although nothing came before it. The theorem runs the code on one
  keyword, \<open>constructor\<close>: the code returns the empty list, where the deduplication the
  claim describes returns the keyword.
\<close>

theorem dedupKeywords_drops_constructor:
  "dedupKeywords [\<lparr>word = ''constructor'', occurences = 5\<rparr>] [] = [] \<and>
   dedupByWord ([\<lparr>word = ''constructor'', occurences = 5\<rparr>] @ []) =
     [\<lparr>word = ''constructor'', occurences = 5\<rparr>]"
  by (simp add: dedupKeywords_def truthyProp_def objectPrototypeKeys_def)

text \<open>
  Claim C2, as amended: for every pair of keyword sequences and every \<open>maxCount \<ge> 0\<close>, the
  merged keyword list has at most \<open>maxCount\<close> entries (so none for \<open>maxCount = 0\<close>).
\<close>

theorem newKeywords_within_maxCount:
  "0 \<le> maxCount \<Longrightarrow> int (length (newKeywords maxCount existing incoming)) \<le> maxCount"
  by (simp add: newKeywords_def slice_from_zero)

theorem newKeywords_within_maxCount_witness:
  "(0::int) \<le> 1 \<and>
   newKeywords 1 [\<lparr>word = ''a'', occurences = 2\<rparr>, \<lparr>word = ''b'', occurences = 7\<rparr>] [] =
     [\<lparr>word = ''b'', occurences = 7\<rparr>] \<and>
   int (length (newKeywords 1 [\<lparr>word = ''a'', occurences = 2\<rparr>, \<lparr>word = ''b'', occurences = 7\<rparr>] [])) \<le> 1"
  using newKeywords_within_maxCount [of 1 "[\<lparr>word = ''a'', occurences = 2\<rparr>, \<lparr>word = ''b'', occurences = 7\<rparr>]" "[]"]
  by (simp add: newKeywords_def dedupKeywords_def truthyProp_def objectPrototypeKeys_def
      sortBy_def byOccurencesDesc_def slice_def)

text \<open>
  Claim C2 as stated fails for a negative \<open>maxCount\<close>: \<open>slice(0, -1)\<close> drops the last entry
  and keeps the rest.
\<close>

theorem newKeywords_negative_maxCount:
  "newKeywords (- 1) [\<lparr>word = ''a'', occurences = 2\<rparr>, \<lparr>word = ''b'', occurences = 7\<rparr>] [] =
     [\<lparr>word = ''b'', occurences = 7\<rparr>] \<and>
   \<not> int (length (newKeywords (- 1) [\<lparr>word = ''a'', occurences = 2\<rparr>, \<lparr>word = ''b'', occurences = 7\<rparr>] [])) \<le> - 1"
  by (simp add: newKeywords_def dedupKeywords_def truthyProp_def objectPrototypeKeys_def
      sortBy_def byOccurencesDesc_def slice_def)

lemma newKeywords_zero: "newKeywords 0 existing incoming = []"
  by (simp add: newKeywords_def slice_from_zero)

lemma newKeywords_negative_length:
  "maxCount < 0 \<Longrightarrow>
     length (newKeywords maxCount existing incoming)
       = length (dedupKeywords existing incoming) - nat (- maxCount)"
  by (simp add: newKeywords_def slice_from_zero sortBy_sort_key)

text \<open>
  The scenario of the specification: existing \<open>[{a, 10}]\<close>, incoming
  \<open>[{a, 7}, {b, 3}]\<close>, at most two keywords.
\<close>

lemma newKeywords_scenario:
  "newKeywords 2 [\<lparr>word = ''a'', occurences = 10\<rparr>]
       [\<lparr>word = ''a'', occurences = 7\<rparr>, \<lparr>word = ''b'', occurences = 3\<rparr>]
     = [\<lparr>word = ''a'', occurences = 10\<rparr>, \<lparr>word = ''b'', occurences = 3\<rparr>]"
  by (simp add: newKeywords_def dedupKeywords_def truthyProp_def objectPrototypeKeys_def
      sortBy_def byOccurencesDesc_def slice_def)

text \<open>
  Claim C4: the merged keyword list is sorted non-ascending by \<open>occurences\<close>; each of its
  entries is the first entry with its word in \<open>existing @ incoming\<close>; and of two entries
  with equal \<open>occurences\<close>, the one whose word is first seen earlier in
  \<open>existing @ incoming\<close> comes first.
\<close>

theorem newKeywords_sorted_stable:
  "i < j \<Longrightarrow> j < length (newKeywords maxCount existing incoming) \<Longrightarrow>
     occurences (newKeywords maxCount existing incoming ! j)
       \<le> occurences (newKeywords maxCount existing incoming ! i) \<and>
     firstIndex (word (newKeywords maxCount existing incoming ! i)) (existing @ incoming)
       < length (existing @ incoming) \<and>
     firstIndex (word (newKeywords maxCount existing incoming ! j)) (existing @ incoming)
       < length (existing @ incoming) \<and>
     (existing @ incoming) ! firstIndex (word (newKeywords maxCount existing incoming ! i)) (existing @ incoming)
       = newKeywords maxCount existing incoming ! i \<and>
     (existing @ incoming) ! firstIndex (word (newKeywords maxCount existing incoming ! j)) (existing @ incoming)
       = newKeywords maxCount existing incoming ! j \<and>
     (occurences (newKeywords maxCount existing incoming ! i)
        = occurences (newKeywords maxCount existing incoming ! j) \<longrightarrow>
      firstIndex (word (newKeywords maxCount existing incoming ! i)) (existing @ incoming)
        < firstIndex (word (newKeywords maxCount existing incoming ! j)) (existing @ incoming))"
proof -
  let ?r = "newKeywords maxCount existing incoming"
  assume ij: "i < j" and j: "j < length ?r"
  have "?r ! i \<in> set (dedupKeywords existing incoming)" "?r ! j \<in> set (dedupKeywords existing incoming)"
    using ij j newKeywords_subset [of maxCount existing incoming] by (auto simp: subset_iff)
  then have "firstIndex (word (?r ! i)) (existing @ incoming) < length (existing @ incoming)"
    and "firstIndex (word (?r ! j)) (existing @ incoming) < length (existing @ incoming)"
    and "(existing @ incoming) ! firstIndex (word (?r ! i)) (existing @ incoming) = ?r ! i"
    and "(existing @ incoming) ! firstIndex (word (?r ! j)) (existing @ incoming) = ?r ! j"
    unfolding dedupKeywords_def using filterKeywords_first by blast+
  with newKeywords_sorted [OF ij j] newKeywords_order [OF ij j] show ?thesis by blast
qed

theorem newKeywords_sorted_stable_witness:
  "(1::nat) < 2 \<and>
   newKeywords 3 [\<lparr>word = ''a'', occurences = 3\<rparr>, \<lparr>word = ''b'', occurences = 5\<rparr>]
                 [\<lparr>word = ''c'', occurences = 3\<rparr>, \<lparr>word = ''a'', occurences = 9\<rparr>] =
     [\<lparr>word = ''b'', occurences = 5\<rparr>, \<lparr>word = ''a'', occurences = 3\<rparr>, \<lparr>word = ''c'', occurences = 3\<rparr>] \<and>
   firstIndex ''a'' ([\<lparr>word = ''a'', occurences = 3\<rparr>, \<lparr>word = ''b'', occurences = 5\<rparr>] @
                     [\<lparr>word = ''c'', occurences = 3\<rparr>, \<lparr>word = ''a'', occurences = 9\<rparr>])
     < firstIndex ''c'' ([\<lparr>word = ''a'', occurences = 3\<rparr>, \<lparr>word = ''b'', occurences = 5\<rparr>] @
                     [\<lparr>word = ''c'', occurences = 3\<rparr>, \<lparr>word = ''a'', occurences = 9\<rparr>])"
  using newKeywords_sorted_stable [of 1 2 3 "[\<lparr>word = ''a'', occurences = 3\<rparr>, \<lparr>word = ''b'', occurences = 5\<rparr>]"
      "[\<lparr>word = ''c'', occurences = 3\<rparr>, \<lparr>word = ''a'', occurences = 9\<rparr>]"]
  by (simp add: newKeywords_def dedupKeywords_def truthyProp_def objectPrototypeKeys_def
      sortBy_def byOccurencesDesc_def slice_def)


section \<open>Properties of the number model\<close>

lemma pow2_powi: "pow2 k = 2 powi k"
  by (simp add: pow2_def power_int_def power_one_over inverse_eq_divide)

lemma pow2_pos: "0 < pow2 k"
  by (simp add: pow2_powi)

lemma pow2_add: "pow2 (a + b) = pow2 a * pow2 b"
  by (simp add: pow2_powi power_int_add)

lemma pow2_nat: "pow2 (int n) = 2 ^ n"
  by (simp add: pow2_def)

lemma pow2_strict_mono: "a < b \<Longrightarrow> pow2 a < pow2 b"
  by (simp add: pow2_powi power_int_strict_increasing)

lemma pow2_mono: "a \<le> b \<Longrightarrow> pow2 a \<le> pow2 b"
  by (simp add: pow2_powi power_int_increasing)

lemma pow2_less_cancel: "pow2 a < pow2 b \<Longrightarrow> a < b"
  using pow2_mono [of b a] by (cases "a < b") auto

lemma pow2_le_cancel: "pow2 a \<le> pow2 b \<Longrightarrow> a \<le> b"
  using pow2_strict_mono [of b a] by (cases "a \<le> b") auto

lemma floorLog2_bounds:
  assumes "0 < q"
  shows "pow2 (floorLog2 q) \<le> q \<and> q < pow2 (floorLog2 q + 1)"
proof -
  obtain a b where ab: "quotient_of q = (a, b)" by (cases "quotient_of q")
  then have b: "0 < b" and q: "q = of_int a / of_int b"
    by (simp_all add: quotient_of_denom_pos quotient_of_div)
  with assms have a: "0 < a" by (simp add: zero_less_divide_iff)
  let ?la = "bitlen a" and ?lb = "bitlen b"
  have la: "2 ^ nat (?la - 1) \<le> a" "a < 2 ^ nat ?la" using bitlen_bounds [OF a] by simp_all
  have lb: "2 ^ nat (?lb - 1) \<le> b" "b < 2 ^ nat ?lb" using bitlen_bounds [OF b] by simp_all
  have la1: "1 \<le> ?la" using a by (simp add: bitlen_alt_def)
  have lb1: "1 \<le> ?lb" using b by (simp add: bitlen_alt_def)
  have ra: "pow2 (?la - 1) \<le> of_int a" "of_int a < pow2 ?la"
  proof -
    have "(of_int (2 ^ nat (?la - 1)) :: rat) \<le> of_int a" using la(1) by (simp only: of_int_le_iff)
    then show "pow2 (?la - 1) \<le> of_int a" using la1 by (simp add: pow2_def)
    have "(of_int a :: rat) < of_int (2 ^ nat ?la)" using la(2) by (simp only: of_int_less_iff)
    then show "of_int a < pow2 ?la" using la1 by (simp add: pow2_def)
  qed
  have rb: "pow2 (?lb - 1) \<le> of_int b" "of_int b < pow2 ?lb"
  proof -
    have "(of_int (2 ^ nat (?lb - 1)) :: rat) \<le> of_int b" using lb(1) by (simp only: of_int_le_iff)
    then show "pow2 (?lb - 1) \<le> of_int b" using lb1 by (simp add: pow2_def)
    have "(of_int b :: rat) < of_int (2 ^ nat ?lb)" using lb(2) by (simp only: of_int_less_iff)
    then show "of_int b < pow2 ?lb" using lb1 by (simp add: pow2_def)
  qed
  have bpos: "(0::rat) < of_int b" using b by simp
  have upper: "q < pow2 (?la - ?lb + 1)"
  proof -
    have "q * of_int b = of_int a" using q bpos by simp
    also have "\<dots> < pow2 ?la" by (rule ra(2))
    also have "\<dots> = pow2 (?la - ?lb + 1) * pow2 (?lb - 1)" by (simp add: pow2_add [symmetric])
    also have "\<dots> \<le> pow2 (?la - ?lb + 1) * of_int b"
      using rb(1) pow2_pos [of "?la - ?lb + 1"] by simp
    finally show ?thesis using bpos by simp
  qed
  have lower: "pow2 (?la - ?lb - 1) < q"
  proof -
    have "pow2 (?la - ?lb - 1) * of_int b < pow2 (?la - ?lb - 1) * pow2 ?lb"
      using rb(2) pow2_pos [of "?la - ?lb - 1"] by simp
    also have "\<dots> = pow2 (?la - 1)" by (simp add: pow2_add [symmetric])
    also have "\<dots> \<le> of_int a" by (rule ra(1))
    also have "\<dots> = q * of_int b" using q bpos by simp
    finally show ?thesis using bpos by simp
  qed
  show ?thesis
  proof (cases "pow2 (?la - ?lb) \<le> q")
    case True
    then have "floorLog2 q = ?la - ?lb" by (simp add: floorLog2_def ab)
    with True upper show ?thesis by simp
  next
    case False
    then have "floorLog2 q = ?la - ?lb - 1" by (simp add: floorLog2_def ab)
    with False lower show ?thesis by simp
  qed
qed

lemma floorLog2_unique:
  assumes "0 < q" and "pow2 e \<le> q" and "q < pow2 (e + 1)"
  shows "floorLog2 q = e"
proof -
  from floorLog2_bounds [OF assms(1)]
  have "pow2 (floorLog2 q) \<le> q" "q < pow2 (floorLog2 q + 1)" by simp_all
  with assms have "pow2 e < pow2 (floorLog2 q + 1)" "pow2 (floorLog2 q) < pow2 (e + 1)" by simp_all
  then have "e < floorLog2 q + 1" and "floorLog2 q < e + 1"
    using pow2_less_cancel by blast+
  then show ?thesis by simp
qed

lemma roundToDouble_at:
  assumes "q \<noteq> 0" and "pow2 e \<le> \<bar>q\<bar>" and "\<bar>q\<bar> < pow2 (e + 1)"
  shows "roundToDouble q =
     (let ulp = pow2 (max e (- 1022) - 52);
          r = of_int (roundHalfEven (q / ulp)) * ulp
      in if pow2 1024 \<le> \<bar>r\<bar> then (if 0 < q then PosInf else NegInf) else Finite r)"
proof -
  have "floorLog2 \<bar>q\<bar> = e" using assms by (intro floorLog2_unique) simp_all
  then show ?thesis using assms(1) by (simp add: roundToDouble_def Let_def)
qed

lemma floor_numeral_divide:
  "\<lfloor>numeral a / numeral b :: rat\<rfloor> = numeral a div numeral b"
  "\<lfloor>- numeral a / numeral b :: rat\<rfloor> = - numeral a div numeral b"
  using floor_divide_of_int_eq [of "numeral a" "numeral b", where ?'a = rat]
    floor_divide_of_int_eq [of "- numeral a" "numeral b", where ?'a = rat]
  by simp_all

lemma floor_minus_numeral_divide:
  "\<lfloor>- (numeral a / numeral b) :: rat\<rfloor> = - numeral a div numeral b"
  using floor_numeral_divide(2) [of a b] by simp

lemmas round_eval = pow2_def roundHalfEven_def Let_def floor_numeral_divide floor_minus_numeral_divide

lemma roundHalfEven_of_int: "roundHalfEven (of_int m) = m"
  by (simp add: roundHalfEven_def)

lemma roundHalfEven_bounds:
  "x - 1 / 2 \<le> of_int (roundHalfEven x) \<and> of_int (roundHalfEven x) \<le> x + 1 / 2"
proof -
  define f where "f = \<lfloor>x\<rfloor>"
  have fl: "of_int f \<le> x" "x < of_int f + 1" unfolding f_def by linarith+
  have "roundHalfEven x = f \<and> x - of_int f \<le> 1 / 2 \<or>
        roundHalfEven x = f + 1 \<and> 1 / 2 \<le> x - of_int f"
    by (auto simp: roundHalfEven_def Let_def f_def)
  then show ?thesis
  proof
    assume "roundHalfEven x = f \<and> x - of_int f \<le> 1 / 2"
    with fl show ?thesis by simp
  next
    assume "roundHalfEven x = f + 1 \<and> 1 / 2 \<le> x - of_int f"
    with fl show ?thesis by simp
  qed
qed

lemma roundHalfEven_abs_le:
  assumes "\<bar>x\<bar> \<le> of_int n"
  shows "\<bar>roundHalfEven x\<bar> \<le> n"
proof -
  have "(of_int \<bar>roundHalfEven x\<bar> :: rat) \<le> of_int n + 1 / 2"
    using roundHalfEven_bounds [of x] assms by (simp add: abs_le_iff)
  then have "(of_int \<bar>roundHalfEven x\<bar> :: rat) < of_int (n + 1)" by simp
  then have "\<bar>roundHalfEven x\<bar> < n + 1" by (simp only: of_int_less_iff)
  then show ?thesis by simp
qed

lemma roundHalfEven_abs_ge:
  assumes "of_int n \<le> \<bar>x\<bar>"
  shows "n \<le> \<bar>roundHalfEven x\<bar>"
proof -
  have "(of_int n :: rat) - 1 / 2 \<le> of_int \<bar>roundHalfEven x\<bar>"
    using roundHalfEven_bounds [of x] assms by (simp add: abs_if split: if_splits)
  then have "(of_int (n - 1) :: rat) < of_int \<bar>roundHalfEven x\<bar>" by simp
  then have "n - 1 < \<bar>roundHalfEven x\<bar>" by (simp only: of_int_less_iff)
  then show ?thesis by simp
qed

lemma pow2_numeral: "pow2 53 = 2 ^ 53" "pow2 52 = 2 ^ 52" "pow2 0 = 1"
  by (simp_all add: pow2_def)

lemma roundToDouble_idem:
  assumes "roundToDouble q = Finite r"
  shows "roundToDouble r = Finite r"
proof (cases "q = 0")
  case True
  with assms show ?thesis by (simp add: roundToDouble_def)
next
  case False
  define e where "e = max (floorLog2 \<bar>q\<bar>) (- 1022)"
  define u where "u = pow2 (e - 52)"
  define m where "m = roundHalfEven (q / u)"
  have r: "r = of_int m * u" and fin: "\<not> pow2 1024 \<le> \<bar>r\<bar>"
    using assms False by (auto simp: roundToDouble_def Let_def e_def u_def m_def split: if_splits)
  have upos: "0 < u" by (simp add: u_def pow2_pos)
  have e_low: "- 1022 \<le> e" by (simp add: e_def)
  have qpos: "0 < \<bar>q\<bar>" using False by simp
  have "\<bar>q\<bar> < pow2 (floorLog2 \<bar>q\<bar> + 1)" using floorLog2_bounds [OF qpos] by simp
  also have "\<dots> \<le> pow2 (e + 1)" by (rule pow2_mono) (simp add: e_def)
  finally have qb: "\<bar>q\<bar> < pow2 (e + 1)" .
  have e1: "pow2 (e + 1) = 2 ^ 53 * u"
    using pow2_add [of 53 "e - 52"] by (simp add: u_def pow2_numeral add.commute)
  have e0: "pow2 e = 2 ^ 52 * u"
    using pow2_add [of 52 "e - 52"] by (simp add: u_def pow2_numeral)
  have "\<bar>q / u\<bar> = \<bar>q\<bar> / u" using upos by simp
  also have "\<dots> < 2 ^ 53" using qb upos by (simp add: e1 divide_less_eq)
  finally have "\<bar>q / u\<bar> \<le> of_int (2 ^ 53)" by simp
  then have m_up: "\<bar>m\<bar> \<le> 2 ^ 53" unfolding m_def by (rule roundHalfEven_abs_le)
  have absr: "\<bar>r\<bar> = of_int \<bar>m\<bar> * u" using upos by (simp add: r abs_mult)
  have "\<exists>k. r / pow2 (max (floorLog2 \<bar>r\<bar>) (- 1022) - 52) = of_int k"
  proof (cases "m = 0")
    case True
    then have "r / pow2 (max (floorLog2 \<bar>r\<bar>) (- 1022) - 52) = of_int 0" by (simp add: r)
    then show ?thesis by blast
  next
    case mnz: False
    then have rpos: "0 < \<bar>r\<bar>" using upos by (simp add: r)
    consider (top) "\<bar>m\<bar> = 2 ^ 53" | (normal) "2 ^ 52 \<le> \<bar>m\<bar>" "\<bar>m\<bar> < 2 ^ 53" | (sub) "\<bar>m\<bar> < 2 ^ 52"
      using m_up by linarith
    then show ?thesis
    proof cases
      case top
      then have "\<bar>r\<bar> = pow2 (e + 1)" by (simp add: absr e1)
      then have "floorLog2 \<bar>r\<bar> = e + 1"
        using rpos pow2_strict_mono [of "e + 1" "e + 1 + 1"] by (intro floorLog2_unique) simp_all
      then have "max (floorLog2 \<bar>r\<bar>) (- 1022) - 52 = (e - 52) + 1" using e_low by simp
      then have "pow2 (max (floorLog2 \<bar>r\<bar>) (- 1022) - 52) = 2 * u"
        using pow2_add [of "e - 52" 1] by (simp add: u_def pow2_def)
      then have "r / pow2 (max (floorLog2 \<bar>r\<bar>) (- 1022) - 52) = of_int m / 2"
        using upos by (simp add: r)
      moreover have "m = 2 ^ 53 \<or> m = - (2 ^ 53)" using top by linarith
      then have "m = 2 * (m div 2)" by auto
      then have "(of_int m :: rat) / 2 = of_int (m div 2)"
        by (metis of_int_mult of_int_numeral nonzero_mult_div_cancel_left zero_neq_numeral)
      ultimately show ?thesis by metis
    next
      case normal
      have "pow2 e \<le> \<bar>r\<bar>" using normal(1) upos
        by (simp add: absr e0)
      moreover have "\<bar>r\<bar> < pow2 (e + 1)" using normal(2) upos
        by (simp add: absr e1)
      ultimately have "floorLog2 \<bar>r\<bar> = e" using rpos by (intro floorLog2_unique)
      then have "pow2 (max (floorLog2 \<bar>r\<bar>) (- 1022) - 52) = u" using e_low by (simp add: u_def)
      then have "r / pow2 (max (floorLog2 \<bar>r\<bar>) (- 1022) - 52) = of_int m" using upos by (simp add: r)
      then show ?thesis by blast
    next
      case sub
      have e_eq: "e = - 1022"
      proof (rule ccontr)
        assume "e \<noteq> - 1022"
        then have "e = floorLog2 \<bar>q\<bar>" by (simp add: e_def max_def split: if_splits)
        then have "pow2 e \<le> \<bar>q\<bar>" using floorLog2_bounds [OF qpos] by simp
        then have "2 ^ 52 \<le> \<bar>q\<bar> / u" using upos by (simp add: e0 le_divide_eq)
        then have "of_int (2 ^ 52) \<le> \<bar>q / u\<bar>" using upos by simp
        then have "2 ^ 52 \<le> \<bar>m\<bar>" unfolding m_def by (rule roundHalfEven_abs_ge)
        with sub show False by simp
      qed
      have "(of_int \<bar>m\<bar> :: rat) < of_int (2 ^ 52)" using sub by (simp only: of_int_less_iff)
      then have "\<bar>r\<bar> < pow2 e" using upos by (simp add: absr e0)
      moreover have "pow2 (floorLog2 \<bar>r\<bar>) \<le> \<bar>r\<bar>" using floorLog2_bounds [OF rpos] by simp
      ultimately have "pow2 (floorLog2 \<bar>r\<bar>) < pow2 e" by simp
      then have "floorLog2 \<bar>r\<bar> < e" by (rule pow2_less_cancel)
      then have "pow2 (max (floorLog2 \<bar>r\<bar>) (- 1022) - 52) = u" using e_eq by (simp add: u_def)
      then have "r / pow2 (max (floorLog2 \<bar>r\<bar>) (- 1022) - 52) = of_int m" using upos by (simp add: r)
      then show ?thesis by blast
    qed
  qed
  then obtain k where k: "r / pow2 (max (floorLog2 \<bar>r\<bar>) (- 1022) - 52) = of_int k" by blast
  have "0 < pow2 (max (floorLog2 \<bar>r\<bar>) (- 1022) - 52)" by (rule pow2_pos)
  with k have "of_int k * pow2 (max (floorLog2 \<bar>r\<bar>) (- 1022) - 52) = r"
    by (simp add: field_simps)
  with k fin show ?thesis
    by (simp add: roundToDouble_def Let_def roundHalfEven_of_int)
qed

lemma roundToDouble_zero: "roundToDouble 0 = Finite 0"
  by (simp add: roundToDouble_def)

lemma isDouble_roundToDouble: "isDouble (roundToDouble q)"
  by (cases "roundToDouble q") (simp_all add: isDouble_def roundToDouble_idem)

lemma isDouble_js_mul: "isDouble (js_mul x y)"
  by (cases x; cases y) (simp_all add: isDouble_roundToDouble, simp_all add: isDouble_def negate_def)

lemma js_add_zero: "isDouble x \<Longrightarrow> js_add x (Finite 0) = x"
  by (cases x) (simp_all add: isDouble_def)

lemma js_of_int_zero: "js_of_int 0 = Finite 0"
  by (simp add: js_of_int_def roundToDouble_zero)

lemma js_mul_zero: "js_mul (Finite a) (js_of_int 0) = Finite 0"
  by (simp add: js_of_int_zero roundToDouble_zero)

lemma roundToDouble_nonzero:
  assumes "1 \<le> \<bar>q\<bar>"
  shows "roundToDouble q \<noteq> Finite 0"
proof
  assume z: "roundToDouble q = Finite 0"
  define e where "e = max (floorLog2 \<bar>q\<bar>) (- 1022)"
  define u where "u = pow2 (e - 52)"
  have q0: "q \<noteq> 0" and qpos: "0 < \<bar>q\<bar>" using assms by auto
  have upos: "0 < u" by (simp add: u_def pow2_pos)
  from z q0 have "of_int (roundHalfEven (q / u)) * u = 0"
    by (auto simp: roundToDouble_def Let_def e_def u_def split: if_splits)
  with upos have "roundHalfEven (q / u) = 0" by simp
  with roundHalfEven_bounds [of "q / u"] have "q / u \<le> 1 / 2" and "- (1 / 2) \<le> q / u"
    by simp_all
  then have small: "\<bar>q / u\<bar> \<le> 1 / 2" by linarith
  have au: "\<bar>u\<bar> = u" using upos by simp
  have "\<bar>q\<bar> / u = \<bar>q / u\<bar>" by (simp only: abs_divide au)
  also note small
  finally have "\<bar>q\<bar> / u \<le> 1 / 2" .
  then have half: "\<bar>q\<bar> \<le> u / 2" using upos by (simp add: field_simps)
  have "pow2 (floorLog2 \<bar>q\<bar>) \<le> \<bar>q\<bar>" using floorLog2_bounds [OF qpos] by simp
  moreover have "pow2 (- 1022) \<le> pow2 0" by (rule pow2_mono) simp
  then have "pow2 (- 1022) \<le> \<bar>q\<bar>" using assms by (simp add: pow2_numeral)
  ultimately have "pow2 e \<le> \<bar>q\<bar>" by (simp add: e_def max_def)
  moreover have "u < pow2 e" unfolding u_def by (rule pow2_strict_mono) simp
  ultimately show False using half upos by simp
qed

lemma js_of_int_nonzero: "n \<noteq> 0 \<Longrightarrow> js_of_int n \<noteq> Finite 0"
proof -
  assume "n \<noteq> 0"
  then have "1 \<le> \<bar>n\<bar>" by simp
  then have "(of_int 1 :: rat) \<le> of_int \<bar>n\<bar>" by (simp only: of_int_le_iff)
  then have "1 \<le> \<bar>of_int n :: rat\<bar>" by simp
  then show ?thesis unfolding js_of_int_def by (rule roundToDouble_nonzero)
qed

lemma js_add_commute: "js_add x y = js_add y x"
  by (cases x; cases y) (simp_all add: add.commute)

text \<open>Some roundings, worked out: small values that are doubles already.\<close>

lemma roundToDouble_examples:
  "roundToDouble 3 = Finite 3"
  "roundToDouble 5 = Finite 5"
  "roundToDouble 8 = Finite 8"
  "roundToDouble (1 / 4) = Finite (1 / 4)"
  "roundToDouble (3 / 4) = Finite (3 / 4)"
  "roundToDouble (5 / 2) = Finite (5 / 2)"
  "roundToDouble (13 / 4) = Finite (13 / 4)"
  "roundToDouble (13 / 32) = Finite (13 / 32)"
proof -
  show "roundToDouble 3 = Finite 3"
    by (subst roundToDouble_at [of _ 1]) (simp_all add: round_eval)
  show "roundToDouble 5 = Finite 5"
    by (subst roundToDouble_at [of _ 2]) (simp_all add: round_eval)
  show "roundToDouble 8 = Finite 8"
    by (subst roundToDouble_at [of _ 3]) (simp_all add: round_eval)
  show "roundToDouble (1 / 4) = Finite (1 / 4)"
    by (subst roundToDouble_at [of _ "- 2"]) (simp_all add: round_eval)
  show "roundToDouble (3 / 4) = Finite (3 / 4)"
    by (subst roundToDouble_at [of _ "- 1"]) (simp_all add: round_eval)
  show "roundToDouble (5 / 2) = Finite (5 / 2)"
    by (subst roundToDouble_at [of _ 1]) (simp_all add: round_eval)
  show "roundToDouble (13 / 4) = Finite (13 / 4)"
    by (subst roundToDouble_at [of _ 1]) (simp_all add: round_eval)
  show "roundToDouble (13 / 32) = Finite (13 / 32)"
    by (subst roundToDouble_at [of _ "- 2"]) (simp_all add: round_eval)
qed

text \<open>
  The double nearest to \<open>0.1\<close> is \<open>3602879701896397 / 2^55\<close>. Three times that is not a
  double and rounds up; a third of the result is not a double either, and rounds to the
  double after \<open>0.1\<close>.
\<close>

lemma roundToDouble_tenth:
  "roundToDouble (3602879701896397 / 36028797018963968) = Finite (3602879701896397 / 36028797018963968)"
  "roundToDouble (10808639105689191 / 36028797018963968) = Finite (1351079888211149 / 4503599627370496)"
  "roundToDouble (1351079888211149 / 4503599627370496) = Finite (1351079888211149 / 4503599627370496)"
  "roundToDouble (1351079888211149 / 13510798882111488) = Finite (7205759403792795 / 72057594037927936)"
proof -
  show "roundToDouble (1351079888211149 / 4503599627370496) = Finite (1351079888211149 / 4503599627370496)"
    by (subst roundToDouble_at [of _ "- 2"]) (simp_all add: round_eval)
  show "roundToDouble (3602879701896397 / 36028797018963968) = Finite (3602879701896397 / 36028797018963968)"
    by (subst roundToDouble_at [of _ "- 4"]) (simp_all add: round_eval)
  show "roundToDouble (10808639105689191 / 36028797018963968) = Finite (1351079888211149 / 4503599627370496)"
    by (subst roundToDouble_at [of _ "- 2"]) (simp_all add: round_eval)
  show "roundToDouble (1351079888211149 / 13510798882111488) = Finite (7205759403792795 / 72057594037927936)"
    by (subst roundToDouble_at [of _ "- 4"]) (simp_all add: round_eval)
qed

text \<open>
  Rounding a value of at least \<open>1\<close> gives at least \<open>1\<close>, and a value \<open>m * 2^k\<close> with a
  mantissa below \<open>2^53\<close> in the range of the doubles is left alone; so every integer up to
  \<open>2^53\<close> is a Number.
\<close>

lemma roundHalfEven_ge:
  assumes "of_int n \<le> x"
  shows "n \<le> roundHalfEven x"
proof -
  have "(of_int n :: rat) - 1 / 2 \<le> of_int (roundHalfEven x)"
    using roundHalfEven_bounds [of x] assms by simp
  then have "(of_int (n - 1) :: rat) < of_int (roundHalfEven x)" by simp
  then have "n - 1 < roundHalfEven x" by (simp only: of_int_less_iff)
  then show ?thesis by simp
qed

lemma roundToDouble_ge_one:
  assumes "1 \<le> q"
  shows "case roundToDouble q of Finite r \<Rightarrow> 1 \<le> r | PosInf \<Rightarrow> True | NegInf \<Rightarrow> False | NaN \<Rightarrow> False"
proof -
  have qpos: "0 < q" and q0: "q \<noteq> 0" and aq: "\<bar>q\<bar> = q" using assms by simp_all
  define fl where "fl = floorLog2 q"
  define u where "u = pow2 (fl - 52)"
  define m where "m = roundHalfEven (q / u)"
  have b: "pow2 fl \<le> q" "q < pow2 (fl + 1)" using floorLog2_bounds [OF qpos] by (simp_all add: fl_def)
  have "pow2 0 < pow2 (fl + 1)" using b(2) assms by (simp add: pow2_numeral)
  then have fl0: "0 \<le> fl" using pow2_less_cancel [of 0 "fl + 1"] by simp
  then have e: "max fl (- 1022) = fl" by simp
  have upos: "0 < u" by (simp add: u_def pow2_pos)
  have p: "pow2 fl = 2 ^ 52 * u" using pow2_add [of 52 "fl - 52"] by (simp add: u_def pow2_numeral)
  have "of_int (2 ^ 52) \<le> q / u" using b(1) upos by (simp add: p le_divide_eq)
  then have "2 ^ 52 \<le> m" unfolding m_def by (rule roundHalfEven_ge)
  then have "(of_int (2 ^ 52) :: rat) \<le> of_int m" by (simp only: of_int_le_iff)
  then have "of_int (2 ^ 52) * u \<le> of_int m * u" using upos by (intro mult_right_mono) simp_all
  moreover have "pow2 0 \<le> pow2 fl" using fl0 by (rule pow2_mono)
  then have "1 \<le> of_int (2 ^ 52) * u" by (simp add: p pow2_numeral)
  ultimately have r1: "1 \<le> of_int m * u" by (rule order_trans [rotated])
  show ?thesis
    using q0 qpos r1 by (simp add: roundToDouble_def Let_def aq e fl_def [symmetric] u_def [symmetric] m_def [symmetric])
qed

lemma roundToDouble_exact:
  assumes "\<bar>m\<bar> < 2 ^ 53" and "- 1074 \<le> k" and "of_int \<bar>m\<bar> * pow2 k < pow2 1024"
  shows "roundToDouble (of_int m * pow2 k) = Finite (of_int m * pow2 k)"
proof (cases "m = 0")
  case True
  then show ?thesis by (simp add: roundToDouble_zero)
next
  case False
  define q where "q = (of_int m :: rat) * pow2 k"
  define e where "e = max (floorLog2 \<bar>q\<bar>) (- 1022)"
  have kpos: "0 < pow2 k" by (rule pow2_pos)
  have q0: "q \<noteq> 0" using False kpos by (simp add: q_def)
  then have qpos: "0 < \<bar>q\<bar>" by simp
  have aq: "\<bar>q\<bar> = of_int \<bar>m\<bar> * pow2 k" using kpos by (simp add: q_def abs_mult)
  have "(of_int \<bar>m\<bar> :: rat) < of_int (2 ^ 53)" using assms(1) by (simp only: of_int_less_iff)
  then have "\<bar>q\<bar> < 2 ^ 53 * pow2 k" using kpos by (simp add: aq)
  also have "\<dots> = pow2 (53 + k)" using pow2_add [of 53 k] by (simp add: pow2_numeral)
  finally have "\<bar>q\<bar> < pow2 (53 + k)" .
  moreover have "pow2 (floorLog2 \<bar>q\<bar>) \<le> \<bar>q\<bar>" using floorLog2_bounds [OF qpos] by simp
  ultimately have "pow2 (floorLog2 \<bar>q\<bar>) < pow2 (53 + k)" by simp
  then have "floorLog2 \<bar>q\<bar> < 53 + k" by (rule pow2_less_cancel)
  then have ek: "e \<le> 52 + k" using assms(2) by (simp add: e_def)
  define j where "j = nat (52 + k - e)"
  have kj: "k = (e - 52) + int j" using ek by (simp add: j_def)
  have "pow2 k = pow2 (e - 52) * 2 ^ j"
    using pow2_add [of "e - 52" "int j"] kj by (simp add: pow2_nat)
  then have "q / pow2 (e - 52) = of_int (m * 2 ^ j)"
    using pow2_pos [of "e - 52"] by (simp add: q_def)
  then have "of_int (roundHalfEven (q / pow2 (e - 52))) * pow2 (e - 52) = q"
    using pow2_pos [of "e - 52"] by (simp only: roundHalfEven_of_int) (simp add: field_simps)
  moreover have "\<not> pow2 1024 \<le> \<bar>q\<bar>" using assms(3) by (simp add: aq)
  ultimately have "roundToDouble q = Finite q"
    using q0 by (simp add: roundToDouble_def Let_def e_def [symmetric])
  then show ?thesis by (simp add: q_def)
qed

lemma js_of_int_exact:
  assumes "\<bar>n\<bar> \<le> 2 ^ 53"
  shows "js_of_int n = Finite (of_int n)"
proof (cases "\<bar>n\<bar> < 2 ^ 53")
  case True
  have "roundToDouble (of_int n * pow2 0) = Finite (of_int n * pow2 0)"
  proof (rule roundToDouble_exact)
    show "\<bar>n\<bar> < 2 ^ 53" by (rule True)
    show "- 1074 \<le> (0::int)" by simp
    have "(of_int \<bar>n\<bar> :: rat) < of_int (2 ^ 53)" using True by (simp only: of_int_less_iff)
    also have "\<dots> < pow2 1024" by (simp add: pow2_def)
    finally show "of_int \<bar>n\<bar> * pow2 0 < pow2 1024" by (simp add: pow2_numeral)
  qed
  then show ?thesis by (simp add: js_of_int_def pow2_numeral)
next
  case False
  with assms have "n = 2 ^ 53 \<or> n = - (2 ^ 53)" by linarith
  then have n: "(of_int n :: rat) = of_int 1 * pow2 53 \<or> (of_int n :: rat) = of_int (- 1) * pow2 53"
    by (auto simp: pow2_numeral)
  have "roundToDouble (of_int 1 * pow2 53) = Finite (of_int 1 * pow2 53)"
    by (rule roundToDouble_exact) (simp_all add: pow2_def)
  moreover have "roundToDouble (of_int (- 1) * pow2 53) = Finite (of_int (- 1) * pow2 53)"
    by (rule roundToDouble_exact) (simp_all add: pow2_def)
  ultimately show ?thesis using n unfolding js_of_int_def by metis
qed

lemma js_add_zero_left: "isDouble x \<Longrightarrow> js_add (Finite 0) x = x"
  using js_add_zero [of x] by (simp add: js_add_commute)

lemma js_of_int_ge_one:
  "0 < n \<Longrightarrow>
     (case js_of_int n of Finite r \<Rightarrow> 1 \<le> r | PosInf \<Rightarrow> True | NegInf \<Rightarrow> False | NaN \<Rightarrow> False)"
proof -
  assume "0 < n"
  then have "1 \<le> n" by simp
  then have "(of_int 1 :: rat) \<le> of_int n" by (simp only: of_int_le_iff)
  then have "1 \<le> (of_int n :: rat)" by simp
  then show ?thesis unfolding js_of_int_def by (rule roundToDouble_ge_one)
qed

lemma js_of_int_nonneg:
  "0 \<le> n \<Longrightarrow>
     (case js_of_int n of Finite r \<Rightarrow> 0 \<le> r | PosInf \<Rightarrow> True | NegInf \<Rightarrow> False | NaN \<Rightarrow> False)"
proof (cases "n = 0")
  case True
  then show ?thesis by (simp add: js_of_int_zero)
next
  case False
  assume "0 \<le> n"
  with False have "0 < n" by simp
  from js_of_int_ge_one [OF this] show ?thesis by (cases "js_of_int n") simp_all
qed

lemma js_add_counts_positive:
  assumes "0 \<le> a" and "0 \<le> b" and "0 < a + b"
  shows "js_gt (js_add (js_of_int a) (js_of_int b)) (Finite 0)"
proof -
  have na: "case js_of_int a of Finite r \<Rightarrow> 0 \<le> r | PosInf \<Rightarrow> True | NegInf \<Rightarrow> False | NaN \<Rightarrow> False"
    using assms(1) by (rule js_of_int_nonneg)
  have nb: "case js_of_int b of Finite r \<Rightarrow> 0 \<le> r | PosInf \<Rightarrow> True | NegInf \<Rightarrow> False | NaN \<Rightarrow> False"
    using assms(2) by (rule js_of_int_nonneg)
  have one: "(case js_of_int a of Finite r \<Rightarrow> 1 \<le> r | PosInf \<Rightarrow> True | NegInf \<Rightarrow> False | NaN \<Rightarrow> False) \<or>
             (case js_of_int b of Finite r \<Rightarrow> 1 \<le> r | PosInf \<Rightarrow> True | NegInf \<Rightarrow> False | NaN \<Rightarrow> False)"
    using assms js_of_int_ge_one [of a] js_of_int_ge_one [of b] by (cases "0 < a") auto
  show ?thesis
  proof (cases "js_of_int a")
    case fa: (Finite r)
    show ?thesis
    proof (cases "js_of_int b")
      case fb: (Finite s)
      from na nb one fa fb have "1 \<le> r + s" by auto
      from roundToDouble_ge_one [OF this] show ?thesis
        by (cases "roundToDouble (r + s)") (simp_all add: fa fb)
    qed (use nb fa in simp_all)
  qed (use na nb in \<open>cases "js_of_int b"; simp\<close>)+
qed

text \<open>The integer after \<open>2^53\<close> is not a double: it lies halfway and rounds to \<open>2^53\<close>.\<close>

lemma roundToDouble_two_53:
  "roundToDouble 1 = Finite 1"
  "roundToDouble 9007199254740992 = Finite 9007199254740992"
  "roundToDouble 9007199254740993 = Finite 9007199254740992"
proof -
  show "roundToDouble 1 = Finite 1"
    by (subst roundToDouble_at [of _ 0]) (simp_all add: round_eval)
  show "roundToDouble 9007199254740992 = Finite 9007199254740992"
    by (subst roundToDouble_at [of _ 53]) (simp_all add: round_eval)
  show "roundToDouble 9007199254740993 = Finite 9007199254740992"
    by (subst roundToDouble_at [of _ 53]) (simp_all add: round_eval)
qed

section \<open>Properties of the weighted sentiment\<close>

text \<open>
  Claim C3: for non-negative weights (the two \<open>tweets_analyzed\<close>, the Numbers of two
  non-negative integers) whose sum is zero, the merged sentiment score is \<open>0\<close>, and no
  division takes place; for weights whose sum is positive, the score is
  \<open>(incoming.score * incoming.weight + existing.score * existing.weight) /
  (existing.weight + incoming.weight)\<close>, computed in double arithmetic, and the divisor is
  not zero.
\<close>

theorem newSentimentScore_weighted:
  "tweets_analyzed existing = js_of_int a \<Longrightarrow> tweets_analyzed incoming = js_of_int b \<Longrightarrow>
   0 \<le> a \<Longrightarrow> 0 \<le> b \<Longrightarrow>
     (if a + b = 0
      then newSentimentScore existing incoming = Finite 0
      else newSentimentScore existing incoming =
             js_div
               (js_add
                  (js_mul (sentiment_score incoming) (tweets_analyzed incoming))
                  (js_mul (sentiment_score existing) (tweets_analyzed existing)))
               (js_add (tweets_analyzed existing) (tweets_analyzed incoming))
           \<and> js_add (tweets_analyzed existing) (tweets_analyzed incoming) \<noteq> Finite 0)"
proof -
  assume w: "tweets_analyzed existing = js_of_int a" "tweets_analyzed incoming = js_of_int b"
    and nn: "0 \<le> a" "0 \<le> b"
  show ?thesis
  proof (cases "a + b = 0")
    case True
    with nn have "a = 0" "b = 0" by simp_all
    then show ?thesis
      by (simp add: newSentimentScore_def newTweetsAnalyzed_def w js_of_int_zero roundToDouble_zero)
  next
    case False
    with nn have "0 < a + b" by simp
    with nn have pos: "js_gt (js_add (js_of_int a) (js_of_int b)) (Finite 0)"
      by (intro js_add_counts_positive)
    then have "js_add (js_of_int a) (js_of_int b) \<noteq> Finite 0" by auto
    with pos False show ?thesis by (simp add: newSentimentScore_def newTweetsAnalyzed_def w)
  qed
qed

theorem newSentimentScore_weighted_witness:
  "tweets_analyzed (trendWith (Finite (1 / 2)) 0 []) = js_of_int 0 \<and> (0::int) \<le> 0 \<and>
   newSentimentScore (trendWith (Finite (1 / 2)) 0 []) (trendWith (Finite 1) 0 []) = Finite 0 \<and>
   tweets_analyzed (trendWith (Finite (1 / 2)) 5 []) = js_of_int 5 \<and>
   tweets_analyzed (trendWith (Finite (1 / 4)) 3 []) = js_of_int 3 \<and>
   (0::int) \<le> 5 \<and> (0::int) \<le> 3 \<and>
   newSentimentScore (trendWith (Finite (1 / 2)) 5 []) (trendWith (Finite (1 / 4)) 3 [])
     = Finite (13 / 32) \<and>
   js_add (js_of_int 5) (js_of_int 3) = Finite 8"
  using newSentimentScore_weighted [of "trendWith (Finite (1 / 2)) 0 []" 0 "trendWith (Finite 1) 0 []" 0]
    newSentimentScore_weighted [of "trendWith (Finite (1 / 2)) 5 []" 5 "trendWith (Finite (1 / 4)) 3 []" 3]
  by (simp add: trendWith_def js_of_int_def roundToDouble_examples)

text \<open>
  Claim C5, as amended: the merged sentiment score is the same when the existing and the
  incoming side are swapped, and the new \<open>tweets_analyzed\<close> is the Number sum of the two
  weights, the same in either order and whichever branch the score takes. It is the
  plain sum of the weights whenever they are non-negative integers whose sum is at most
  \<open>2^53\<close>.
\<close>

theorem newSentimentScore_swap:
  "newSentimentScore existing incoming = newSentimentScore incoming existing \<and>
   newTweetsAnalyzed existing incoming = js_add (tweets_analyzed existing) (tweets_analyzed incoming) \<and>
   newTweetsAnalyzed incoming existing = newTweetsAnalyzed existing incoming \<and>
   (tweets_analyzed existing = js_of_int a \<and> tweets_analyzed incoming = js_of_int b \<and>
    0 \<le> a \<and> 0 \<le> b \<and> a + b \<le> 2 ^ 53 \<longrightarrow>
      newTweetsAnalyzed existing incoming = Finite (of_int (a + b)))"
proof -
  have "newTweetsAnalyzed existing incoming = Finite (of_int (a + b))"
    if w: "tweets_analyzed existing = js_of_int a" "tweets_analyzed incoming = js_of_int b"
      and b: "0 \<le> a" "0 \<le> b" "a + b \<le> 2 ^ 53"
  proof -
    have "js_of_int a = Finite (of_int a)" "js_of_int b = Finite (of_int b)"
      using b by (intro js_of_int_exact; simp)+
    moreover have "js_of_int (a + b) = Finite (of_int (a + b))"
      using b by (intro js_of_int_exact) simp
    ultimately show ?thesis by (simp add: newTweetsAnalyzed_def w js_of_int_def)
  qed
  then show ?thesis
    by (simp add: newSentimentScore_def newTweetsAnalyzed_def js_add_commute)
qed

theorem newSentimentScore_swap_witness:
  "tweets_analyzed (trendWith (Finite (1 / 2)) 5 []) = js_of_int 5 \<and>
   tweets_analyzed (trendWith (Finite (1 / 4)) 3 []) = js_of_int 3 \<and>
   (0::int) \<le> 5 \<and> (0::int) \<le> 3 \<and> (5::int) + 3 \<le> 2 ^ 53 \<and>
   newTweetsAnalyzed (trendWith (Finite (1 / 2)) 5 []) (trendWith (Finite (1 / 4)) 3 []) = Finite 8 \<and>
   newSentimentScore (trendWith (Finite (1 / 4)) 3 []) (trendWith (Finite (1 / 2)) 5 []) = Finite (13 / 32)"
  using newSentimentScore_swap [of "trendWith (Finite (1 / 2)) 5 []" "trendWith (Finite (1 / 4)) 3 []" 5 3]
  by (simp add: newSentimentScore_def newTweetsAnalyzed_def trendWith_def js_of_int_def
      roundToDouble_examples)

text \<open>
  Claim C5 as stated asks for the plain sum of every two weights. The sum is a Number:
  with \<open>2^53\<close> analysed tweets on one side and one on the other, the code stores \<open>2^53\<close>,
  not \<open>2^53 + 1\<close>.
\<close>

theorem newTweetsAnalyzed_rounds:
  "tweets_analyzed (trendWith (Finite 0) 9007199254740992 []) = Finite 9007199254740992 \<and>
   tweets_analyzed (trendWith (Finite 0) 1 []) = Finite 1 \<and>
   newTweetsAnalyzed (trendWith (Finite 0) 9007199254740992 []) (trendWith (Finite 0) 1 [])
     = Finite 9007199254740992 \<and>
   newTweetsAnalyzed (trendWith (Finite 0) 9007199254740992 []) (trendWith (Finite 0) 1 [])
     \<noteq> Finite (9007199254740992 + 1)"
  by (simp add: newTweetsAnalyzed_def trendWith_def js_of_int_def roundToDouble_two_53)

text \<open>
  Claim C6, as amended: when the existing weight is \<open>0\<close>, the existing score is finite
  and the incoming weight is positive, the merged score is the incoming score multiplied
  by the incoming weight and divided by it again, each operation rounded to a double. That
  is the incoming score up to the two roundings.
\<close>

theorem newSentimentScore_existing_weight_zero:
  "tweets_analyzed existing = Finite 0 \<Longrightarrow> tweets_analyzed incoming = js_of_int w \<Longrightarrow> 0 < w \<Longrightarrow>
   sentiment_score existing = Finite a \<Longrightarrow>
     newSentimentScore existing incoming =
       js_div (js_mul (sentiment_score incoming) (js_of_int w)) (js_of_int w)"
proof -
  assume e: "tweets_analyzed existing = Finite 0" and i: "tweets_analyzed incoming = js_of_int w"
    and w: "0 < w" and s: "sentiment_score existing = Finite a"
  have d: "isDouble (js_of_int w)" by (simp add: js_of_int_def isDouble_roundToDouble)
  then have sum: "js_add (Finite 0) (js_of_int w) = js_of_int w" by (rule js_add_zero_left)
  have "js_gt (js_add (js_of_int 0) (js_of_int w)) (Finite 0)"
    using w by (intro js_add_counts_positive) simp_all
  then have pos: "js_gt (js_of_int w) (Finite 0)" by (simp add: js_of_int_zero sum)
  have "js_mul (Finite a) (Finite 0) = Finite 0" by (simp add: roundToDouble_zero)
  then show ?thesis
    by (simp add: newSentimentScore_def newTweetsAnalyzed_def e i s sum pos js_add_zero isDouble_js_mul)
qed

theorem newSentimentScore_existing_weight_zero_witness:
  "tweets_analyzed (trendWith (Finite (1 / 2)) 0 []) = Finite 0 \<and>
   tweets_analyzed (trendWith (Finite (1 / 4)) 3 []) = js_of_int 3 \<and> (0::int) < 3 \<and>
   newSentimentScore (trendWith (Finite (1 / 2)) 0 []) (trendWith (Finite (1 / 4)) 3 [])
     = Finite (1 / 4)"
  using newSentimentScore_existing_weight_zero
    [of "trendWith (Finite (1 / 2)) 0 []" "trendWith (Finite (1 / 4)) 3 []" 3 "1 / 2"]
  by (simp add: trendWith_def js_of_int_def roundToDouble_zero roundToDouble_examples)

text \<open>
  Claim C6 as stated asks for the incoming score exactly. With an incoming score of
  \<open>0.1\<close> over \<open>3\<close> tweets and nothing on the existing side, the code computes
  \<open>0.1 * 3 / 3\<close>, which is the next double after \<open>0.1\<close> (\<open>0.10000000000000002\<close>).
\<close>

theorem newSentimentScore_not_exact:
  "isDouble (Finite (3602879701896397 / 36028797018963968)) \<and>
   tweets_analyzed (trendWith (Finite 0) 0 []) = Finite 0 \<and>
   tweets_analyzed (trendWith (Finite (3602879701896397 / 36028797018963968)) 3 []) = Finite 3 \<and>
   newSentimentScore (trendWith (Finite 0) 0 [])
       (trendWith (Finite (3602879701896397 / 36028797018963968)) 3 [])
     = Finite (7205759403792795 / 72057594037927936) \<and>
   newSentimentScore (trendWith (Finite 0) 0 [])
       (trendWith (Finite (3602879701896397 / 36028797018963968)) 3 [])
     \<noteq> sentiment_score (trendWith (Finite (3602879701896397 / 36028797018963968)) 3 [])"
  by (simp add: newSentimentScore_def newTweetsAnalyzed_def trendWith_def js_of_int_def isDouble_def
      roundToDouble_zero roundToDouble_examples roundToDouble_tenth)

section \<open>Properties of the stored documents\<close>

lemma createNewTrend_ok: "createNewTrend None td docs = (Resolved, docs @ [td])"
  by (simp add: createNewTrend_def Trend_save_def)

lemma updateExistingTrend_ok:
  "updateExistingTrend g n None doc full docs = (Resolved, updateFirst (name doc) (setFields g n doc full) docs)"
  by (simp add: updateExistingTrend_def Trend_findOneAndUpdate_def)

lemma processTrend_new:
  "find (\<lambda>d. name d = name td) docs = None \<Longrightarrow>
   processTrend getSentimentDescription maxKeywordsPerTrend None None td newsArticles tws streamData docs =
     (Resolved, docs @ [fullTrendData getSentimentDescription td newsArticles tws streamData])"
  unfolding processTrend_def Let_def by (simp add: Trend_findOne_def createNewTrend_ok)

lemma processTrend_existing:
  "find (\<lambda>d. name d = name td) docs = Some doc \<Longrightarrow>
   processTrend getSentimentDescription maxKeywordsPerTrend None None td newsArticles tws streamData docs =
     (Resolved,
      updateFirst (name doc)
        (setFields getSentimentDescription maxKeywordsPerTrend doc
           (fullTrendData getSentimentDescription td newsArticles tws streamData)) docs)"
  unfolding processTrend_def Let_def by (simp add: Trend_findOne_def updateExistingTrend_ok)

lemma find_updateFirst:
  "find (\<lambda>d. name d = n) docs = Some doc \<Longrightarrow> name (f doc) = n \<Longrightarrow>
     find (\<lambda>d. name d = n) (updateFirst n f docs) = Some (f doc)"
  by (induction docs) (auto split: if_splits)

lemma find_append_new:
  "find P docs = None \<Longrightarrow> P d \<Longrightarrow> find P (docs @ [d]) = Some d"
  by (induction docs) (auto split: if_splits)

lemma find_Some_name: "find (\<lambda>d. name d = n) docs = Some doc \<Longrightarrow> name doc = n"
  by (induction docs) (auto split: if_splits)

text \<open>
  Claim C9: for every list of current trend names and every content of the store,
  \<open>removeOldTrends\<close> deletes exactly the documents whose name is not among the current
  names; the documents whose name is among them stay as they are, in their order. When
  the store fails, the promise is rejected and nothing is deleted.
\<close>

theorem removeOldTrends_deletes_exactly:
  "removeOldTrends None currentNames docs =
     (Resolved, filter (\<lambda>d. name d \<in> set currentNames) docs) \<and>
   set docs - set (snd (removeOldTrends None currentNames docs)) =
     {d \<in> set docs. name d \<notin> set currentNames} \<and>
   removeOldTrends (Some e) currentNames docs = (Rejected e, docs)"
  by (auto simp: removeOldTrends_def Trend_remove_nin_def)

text \<open>The scenario of the specification: names \<open>a, b\<close> against a store of \<open>a, b, c\<close>.\<close>

lemma removeOldTrends_scenario:
  "removeOldTrends None [''a'', ''b'']
     [trendWith (Finite 0) 0 [] \<lparr>name := ''a''\<rparr>, trendWith (Finite 0) 0 [] \<lparr>name := ''b''\<rparr>,
      trendWith (Finite 0) 0 [] \<lparr>name := ''c''\<rparr>]
   = (Resolved, [trendWith (Finite 0) 0 [] \<lparr>name := ''a''\<rparr>, trendWith (Finite 0) 0 [] \<lparr>name := ''b''\<rparr>])"
  by (simp add: removeOldTrends_def Trend_remove_nin_def trendWith_def)

text \<open>
  Claim C8: for a trend with no document in the store, \<open>processTrend\<close> creates the
  document from the observation. Without stream data it has \<open>sentiment_score = 0\<close>,
  \<open>sentiment_description = "No Data"\<close>, \<open>tweets_analyzed = 0\<close> and no keywords; with stream
  data the four fields are the stream's sentiment, the description of that sentiment, the
  stream's \<open>tweets_analyzed\<close> and the stream's keywords.
\<close>

theorem processTrend_new_trend:
  "Trend_findOne None (name td) docs = Inr None \<Longrightarrow>
   processTrend getSentimentDescription maxKeywordsPerTrend None None td newsArticles tws streamData docs =
     (Resolved,
      docs @ [\<lparr> name = name td, rank = rank td, articles = newsArticles, tweets = tws,
                sentiment_score = (case streamData of None \<Rightarrow> Finite 0 | Some s \<Rightarrow> sentiment s),
                sentiment_description =
                  (case streamData of None \<Rightarrow> ''No Data'' | Some s \<Rightarrow> getSentimentDescription (sentiment s)),
                tweets_analyzed = (case streamData of None \<Rightarrow> Finite 0 | Some s \<Rightarrow> stream_tweets_analyzed s),
                keywords' = (case streamData of None \<Rightarrow> [] | Some s \<Rightarrow> stream_keywords s) \<rparr>])"
proof -
  assume "Trend_findOne None (name td) docs = Inr None"
  then have "find (\<lambda>d. name d = name td) docs = None" by (simp add: Trend_findOne_def)
  then show ?thesis by (simp add: processTrend_new fullTrendData_def)
qed

theorem processTrend_new_trend_witness:
  "Trend_findOne None ''t'' [] = Inr None \<and>
   processTrend (\<lambda>x. ''Some'') 5 None None \<lparr>name = ''t'', rank = 2\<rparr> [''n''] [''w''] None [] =
     (Resolved,
      [\<lparr> name = ''t'', rank = 2, articles = [''n''], tweets = [''w''], sentiment_score = Finite 0,
         sentiment_description = ''No Data'', tweets_analyzed = Finite 0, keywords' = [] \<rparr>]) \<and>
   processTrend (\<lambda>x. ''Some'') 5 None None \<lparr>name = ''t'', rank = 2\<rparr> [''n''] [''w'']
       (Some \<lparr>sentiment = Finite (1 / 4), stream_tweets_analyzed = Finite 3,
              stream_keywords = [\<lparr>word = ''a'', occurences = 2\<rparr>]\<rparr>) [] =
     (Resolved,
      [\<lparr> name = ''t'', rank = 2, articles = [''n''], tweets = [''w''], sentiment_score = Finite (1 / 4),
         sentiment_description = ''Some'', tweets_analyzed = Finite 3,
         keywords' = [\<lparr>word = ''a'', occurences = 2\<rparr>] \<rparr>])"
proof -
  have none: "Trend_findOne None (name \<lparr>name = ''t'', rank = 2\<rparr>) [] = Inr None"
    by (simp add: Trend_findOne_def)
  show ?thesis
    using none
      processTrend_new_trend [OF none, of "\<lambda>x. ''Some''" 5 "[''n'']" "[''w'']" None]
      processTrend_new_trend [OF none, of "\<lambda>x. ''Some''" 5 "[''n'']" "[''w'']"
        "Some \<lparr>sentiment = Finite (1 / 4), stream_tweets_analyzed = Finite 3,
                stream_keywords = [\<lparr>word = ''a'', occurences = 2\<rparr>]\<rparr>"]
    by simp
qed

text \<open>
  Claim C7, as amended: with \<open>maxKeywordsPerTrend \<ge> 0\<close>, the document that
  \<open>processTrend\<close> leaves in the store for the trend has at most \<open>maxKeywordsPerTrend\<close>
  keywords, no two of them with the same word, whenever the document existed before (its
  keywords are then the merged list, whatever the stream's list is), and, for a trend
  that is new, whenever the keyword list of the stream data already has these two
  properties (the new document takes that list as it is).
\<close>

theorem processTrend_keywords_bounded_distinct:
  assumes "0 \<le> maxKeywordsPerTrend"
    and "Trend_findOne None (name td) docs = Inr found"
    and "case found of
           Some doc \<Rightarrow> True
         | None \<Rightarrow>
             (case streamData of
                None \<Rightarrow> True
              | Some s \<Rightarrow> int (length (stream_keywords s)) \<le> maxKeywordsPerTrend \<and>
                          distinct (map word (stream_keywords s)))"
  shows "\<exists>docs' doc'.
           processTrend getSentimentDescription maxKeywordsPerTrend None None td newsArticles tws streamData docs
             = (Resolved, docs') \<and>
           Trend_findOne None (name td) docs' = Inr (Some doc') \<and>
           keywords' doc' =
             (case found of
                Some doc \<Rightarrow> newKeywords maxKeywordsPerTrend (keywords' doc)
                              (case streamData of None \<Rightarrow> [] | Some s \<Rightarrow> stream_keywords s)
              | None \<Rightarrow> (case streamData of None \<Rightarrow> [] | Some s \<Rightarrow> stream_keywords s)) \<and>
           int (length (keywords' doc')) \<le> maxKeywordsPerTrend \<and>
           distinct (map word (keywords' doc'))"
proof (cases found)
  case None
  let ?full = "fullTrendData getSentimentDescription td newsArticles tws streamData"
  from None assms(2) have nf: "find (\<lambda>d. name d = name td) docs = None"
    by (simp add: Trend_findOne_def)
  have kw: "keywords' ?full = (case streamData of None \<Rightarrow> [] | Some s \<Rightarrow> stream_keywords s)"
    by (simp add: fullTrendData_def)
  have "name ?full = name td" by (simp add: fullTrendData_def)
  then have "Trend_findOne None (name td) (docs @ [?full]) = Inr (Some ?full)"
    using nf by (simp add: Trend_findOne_def find_append_new)
  moreover have "int (length (keywords' ?full)) \<le> maxKeywordsPerTrend \<and> distinct (map word (keywords' ?full))"
    using assms(1,3) None by (simp add: kw split: option.splits)
  ultimately show ?thesis using processTrend_new [OF nf] kw None by simp
next
  case (Some doc)
  let ?full = "fullTrendData getSentimentDescription td newsArticles tws streamData"
  let ?doc' = "setFields getSentimentDescription maxKeywordsPerTrend doc ?full doc"
  from Some assms(2) have f: "find (\<lambda>d. name d = name td) docs = Some doc"
    by (simp add: Trend_findOne_def)
  have kw: "keywords' ?doc' = newKeywords maxKeywordsPerTrend (keywords' doc)
              (case streamData of None \<Rightarrow> [] | Some s \<Rightarrow> stream_keywords s)"
    by (simp add: setFields_def fullTrendData_def)
  have nd: "name doc = name td" by (rule find_Some_name [OF f])
  have "name ?doc' = name td" using nd by (simp add: setFields_def)
  then have "find (\<lambda>d. name d = name td)
       (updateFirst (name td) (setFields getSentimentDescription maxKeywordsPerTrend doc ?full) docs)
     = Some ?doc'"
    using f by (rule find_updateFirst [rotated])
  then have "Trend_findOne None (name td)
       (updateFirst (name doc) (setFields getSentimentDescription maxKeywordsPerTrend doc ?full) docs)
     = Inr (Some ?doc')"
    by (simp add: Trend_findOne_def nd)
  moreover have "int (length (keywords' ?doc')) \<le> maxKeywordsPerTrend \<and> distinct (map word (keywords' ?doc'))"
    unfolding kw using assms(1) by (simp add: newKeywords_length newKeywords_distinct)
  ultimately show ?thesis using processTrend_existing [OF f] kw Some by simp
qed

theorem processTrend_keywords_bounded_distinct_witness:
  "(0::int) \<le> 1 \<and>
   Trend_findOne None ''t'' [trendWith (Finite 0) 0 [\<lparr>word = ''a'', occurences = 5\<rparr>]]
     = Inr (Some (trendWith (Finite 0) 0 [\<lparr>word = ''a'', occurences = 5\<rparr>])) \<and>
   fst (processTrend (\<lambda>x. ''Some'') 1 None None \<lparr>name = ''t'', rank = 2\<rparr> [] []
          (Some \<lparr>sentiment = Finite 0, stream_tweets_analyzed = Finite 0,
                 stream_keywords = [\<lparr>word = ''b'', occurences = 3\<rparr>, \<lparr>word = ''b'', occurences = 4\<rparr>]\<rparr>)
          [trendWith (Finite 0) 0 [\<lparr>word = ''a'', occurences = 5\<rparr>]]) = Resolved \<and>
   map keywords'
     (snd (processTrend (\<lambda>x. ''Some'') 1 None None \<lparr>name = ''t'', rank = 2\<rparr> [] []
          (Some \<lparr>sentiment = Finite 0, stream_tweets_analyzed = Finite 0,
                 stream_keywords = [\<lparr>word = ''b'', occurences = 3\<rparr>, \<lparr>word = ''b'', occurences = 4\<rparr>]\<rparr>)
          [trendWith (Finite 0) 0 [\<lparr>word = ''a'', occurences = 5\<rparr>]]))
     = [[\<lparr>word = ''a'', occurences = 5\<rparr>]] \<and>
   Trend_findOne None ''t'' [] = Inr None \<and>
   int (length [\<lparr>word = ''b'', occurences = (3::int)\<rparr>]) \<le> 1 \<and>
   distinct (map word [\<lparr>word = ''b'', occurences = (3::int)\<rparr>]) \<and>
   map keywords'
     (snd (processTrend (\<lambda>x. ''Some'') 1 None None \<lparr>name = ''t'', rank = 2\<rparr> [] []
          (Some \<lparr>sentiment = Finite 0, stream_tweets_analyzed = Finite 0,
                 stream_keywords = [\<lparr>word = ''b'', occurences = 3\<rparr>]\<rparr>) []))
     = [[\<lparr>word = ''b'', occurences = 3\<rparr>]]"
proof -
  let ?doc = "trendWith (Finite 0) 0 [\<lparr>word = ''a'', occurences = 5\<rparr>]"
  let ?td = "\<lparr>name = ''t'', rank = 2\<rparr>"
  let ?sd = "Some \<lparr>sentiment = Finite 0, stream_tweets_analyzed = Finite 0,
                   stream_keywords = [\<lparr>word = ''b'', occurences = 3\<rparr>, \<lparr>word = ''b'', occurences = 4\<rparr>]\<rparr>"
  let ?sd1 = "Some \<lparr>sentiment = Finite 0, stream_tweets_analyzed = Finite 0,
                   stream_keywords = [\<lparr>word = ''b'', occurences = 3\<rparr>]\<rparr>"
  have f: "find (\<lambda>d. name d = name ?td) [?doc] = Some ?doc" by (simp add: trendWith_def)
  have nf: "find (\<lambda>d. name d = name ?td) [] = None" by simp
  have merged: "\<exists>docs' doc'.
          processTrend (\<lambda>x. ''Some'') 1 None None ?td [] [] ?sd [?doc] = (Resolved, docs') \<and>
          Trend_findOne None (name ?td) docs' = Inr (Some doc') \<and>
          keywords' doc' =
            (case Some ?doc of
               Some doc \<Rightarrow> newKeywords 1 (keywords' doc)
                             (case ?sd of None \<Rightarrow> [] | Some s \<Rightarrow> stream_keywords s)
             | None \<Rightarrow> (case ?sd of None \<Rightarrow> [] | Some s \<Rightarrow> stream_keywords s)) \<and>
          int (length (keywords' doc')) \<le> 1 \<and> distinct (map word (keywords' doc'))"
    by (rule processTrend_keywords_bounded_distinct) (simp_all add: Trend_findOne_def trendWith_def)
  have created: "\<exists>docs' doc'.
          processTrend (\<lambda>x. ''Some'') 1 None None ?td [] [] ?sd1 [] = (Resolved, docs') \<and>
          Trend_findOne None (name ?td) docs' = Inr (Some doc') \<and>
          keywords' doc' =
            (case None :: trend option of
               Some doc \<Rightarrow> newKeywords 1 (keywords' doc)
                             (case ?sd1 of None \<Rightarrow> [] | Some s \<Rightarrow> stream_keywords s)
             | None \<Rightarrow> (case ?sd1 of None \<Rightarrow> [] | Some s \<Rightarrow> stream_keywords s)) \<and>
          int (length (keywords' doc')) \<le> 1 \<and> distinct (map word (keywords' doc'))"
    by (rule processTrend_keywords_bounded_distinct) (simp_all add: Trend_findOne_def)
  have "newKeywords 1 [\<lparr>word = ''a'', occurences = 5\<rparr>]
          [\<lparr>word = ''b'', occurences = 3\<rparr>, \<lparr>word = ''b'', occurences = 4\<rparr>]
      = [\<lparr>word = ''a'', occurences = 5\<rparr>]"
    by (simp add: newKeywords_def dedupKeywords_def truthyProp_def objectPrototypeKeys_def
        sortBy_def byOccurencesDesc_def slice_def)
  with merged created show ?thesis
    using processTrend_existing [OF f, of "\<lambda>x. ''Some''" 1 "[]" "[]" ?sd]
      processTrend_new [OF nf, of "\<lambda>x. ''Some''" 1 "[]" "[]" ?sd1]
    by (simp add: Trend_findOne_def trendWith_def setFields_def fullTrendData_def)
qed

text \<open>
  Claim C7 as stated fails for a new trend: its document gets the stream's keyword
  list unchanged, here two entries with the same word under a maximum of one.
\<close>

theorem createNewTrend_keeps_stream_keywords:
  "processTrend (\<lambda>x. ''Some'') 1 None None \<lparr>name = ''t'', rank = 2\<rparr> [] []
       (Some \<lparr>sentiment = Finite 0, stream_tweets_analyzed = Finite 2,
              stream_keywords = [\<lparr>word = ''a'', occurences = 1\<rparr>, \<lparr>word = ''a'', occurences = 2\<rparr>]\<rparr>) []
     = (Resolved,
        [\<lparr> name = ''t'', rank = 2, articles = [], tweets = [], sentiment_score = Finite 0,
           sentiment_description = ''Some'', tweets_analyzed = Finite 2,
           keywords' = [\<lparr>word = ''a'', occurences = 1\<rparr>, \<lparr>word = ''a'', occurences = 2\<rparr>] \<rparr>]) \<and>
   \<not> int (length [\<lparr>word = ''a'', occurences = 1\<rparr>, \<lparr>word = ''a'', occurences = (2::int)\<rparr>]) \<le> 1 \<and>
   \<not> distinct (map word [\<lparr>word = ''a'', occurences = 1\<rparr>, \<lparr>word = ''a'', occurences = (2::int)\<rparr>])"
proof -
  have "find (\<lambda>d. name d = name \<lparr>name = ''t'', rank = 2\<rparr>) [] = None" by simp
  from processTrend_new [OF this] show ?thesis by (simp add: fullTrendData_def)
qed

section \<open>Properties of update\<close>

lemma step_keeps_idle:
  assumes "step g n sd s s'"
    and "awaitingNews s = [] \<and> awaitingTweets s = [] \<and> promise s = Pending"
  shows "awaitingNews s' = [] \<and> awaitingTweets s' = [] \<and> promise s' = Pending"
  using assms by (cases rule: step.cases) simp_all

text \<open>
  Claim C10: when \<open>update\<close> is called with no trends, its promise is never resolved and
  never rejected: in every state that the events can reach, the promise is pending. The
  counter is compared with \<open>trends.length\<close> only in the callback of a trend, and there is
  none.
\<close>

theorem update_no_trends_never_settles:
  "rtranclp (step getSentimentDescription maxKeywordsPerTrend streamData) (update [] collection) s \<Longrightarrow>
     promise s = Pending"
proof -
  assume "rtranclp (step getSentimentDescription maxKeywordsPerTrend streamData) (update [] collection) s"
  then have "awaitingNews s = [] \<and> awaitingTweets s = [] \<and> promise s = Pending"
  proof (induction rule: rtranclp_induct)
    case base
    show ?case by (simp add: update_def)
  next
    case (step y z)
    from step.hyps(2) step.IH show ?case by (rule step_keeps_idle)
  qed
  then show ?thesis by simp
qed

theorem update_no_trends_never_settles_witness:
  "rtranclp (step (\<lambda>x. ''Some'') 5 (\<lambda>n. None)) (update [] [])
     (update [] [] \<lparr>removal := None, stored := []\<rparr>) \<and>
   promise (update [] [] \<lparr>removal := None, stored := []\<rparr>) = Pending"
proof -
  have "removal (update [] []) = Some []" by (simp add: update_def)
  moreover have "removeOldTrends None [] (stored (update [] [])) = (Resolved, [])"
    by (simp add: removeOldTrends_def Trend_remove_nin_def update_def)
  ultimately have "step (\<lambda>x. ''Some'') 5 (\<lambda>n. None) (update [] [])
      (update [] [] \<lparr>removal := None, stored := []\<rparr>)"
    by (rule step.removed)
  then have reach: "rtranclp (step (\<lambda>x. ''Some'') 5 (\<lambda>n. None)) (update [] [])
      (update [] [] \<lparr>removal := None, stored := []\<rparr>)"
    by (rule r_into_rtranclp)
  with update_no_trends_never_settles [OF reach] show ?thesis by simp
qed

text \<open>With one trend and a store that answers, the promise can be resolved.\<close>

lemma update_one_trend_can_resolve:
  "\<exists>s. rtranclp (step g n sd) (update [td] []) s \<and> promise s = Resolved"
proof -
  let ?s0 = "update [td] []"
  let ?s1 = "?s0 \<lparr>awaitingNews := [] @ [], awaitingTweets := awaitingTweets ?s0 @ [(td, [])]\<rparr>"
  let ?s2 = "processed Resolved
               (?s1 \<lparr>awaitingTweets := [] @ [], stored := [] @ [fullTrendData g td [] [] (sd (name td))]\<rparr>)"
  have "awaitingNews ?s0 = [] @ td # []" by (simp add: update_def)
  then have st1: "step g n sd ?s0 ?s1" by (rule step.gotNews)
  have "awaitingTweets ?s1 = [] @ (td, []) # []" by (simp add: update_def)
  moreover have "processTrend g n None None td [] [] (sd (name td)) (stored ?s1)
      = (Resolved, [] @ [fullTrendData g td [] [] (sd (name td))])"
    by (simp add: processTrend_new update_def)
  ultimately have st2: "step g n sd ?s1 ?s2" by (rule step.gotTweets)
  from st1 have "rtranclp (step g n sd) ?s0 ?s1" by (rule r_into_rtranclp)
  from this st2 have "rtranclp (step g n sd) ?s0 ?s2" by (rule rtranclp.rtrancl_into_rtrancl)
  moreover have "promise ?s2 = Resolved" by (simp add: processed_def update_def)
  ultimately show ?thesis by blast
qed

end
